theory Spec2Isabelle
  imports Main "HOL-Library.Multiset"
begin

section \<open>Admin RPC client: data model\<close>

text \<open>
  Shallow embedding of \<^verbatim>\<open>cmd/admin-rpc-client.go\<close>.

  Go values of type \<^verbatim>\<open>error\<close> are modelled by \<open>error option\<close>, \<open>None\<close> being
  \<^verbatim>\<open>nil\<close>. A Go function returning \<^verbatim>\<open>(T, error)\<close> returns a pair here, so that both
  components of the source's return statement are visible; a \<^verbatim>\<open>nil\<close> slice is the
  empty list. A run-time panic (index or slice bound out of range) is the value
  \<open>Panic\<close> of the type \<open>outcome\<close>.

  The constructors of \<open>error\<close> are the error values this file creates or passes on:
  \<open>errConfigNotPresent\<close> is \<^verbatim>\<open>errors.New("config not present")\<close>, \<open>rpcError\<close> an error
  returned by \<^verbatim>\<open>AuthRPCClient.Call\<close>, \<open>jsonError\<close> one returned by \<^verbatim>\<open>encoding/json\<close>,
  and \<open>traceError e\<close> the error \<open>e\<close> wrapped by \<^verbatim>\<open>traceError\<close>.
\<close>

datatype error =
    errServerNotInitialized
  | errConfigNotPresent
  | InsufficientReadQuorum
  | errXLWriteQuorum
  | rpcError string
  | jsonError string
  | traceError error

datatype 'a outcome = Panic | Return 'a

text \<open>
  \<^verbatim>\<open>time.Duration\<close> is a signed 64-bit count of nanoseconds; the aggregators only
  compare durations. A \<^verbatim>\<open>time.Time\<close> is modelled by the number of nanoseconds since the
  zero time, so that \<^verbatim>\<open>IsZero\<close> is equality with \<open>0\<close>. \<^verbatim>\<open>Time.Sub\<close> saturates at the
  largest and the smallest \<^verbatim>\<open>Duration\<close>.
\<close>

type_synonym Duration = int

type_synonym Time = int

definition maxDuration :: Duration where
  "maxDuration = 2 ^ 63 - 1"

definition minDuration :: Duration where
  "minDuration = - (2 ^ 63)"

definition time_IsZero :: "Time \<Rightarrow> bool" where
  "time_IsZero t \<longleftrightarrow> t = 0"

definition time_Sub :: "Time \<Rightarrow> Time \<Rightarrow> Duration" where
  "time_Sub t u =
     (if maxDuration < t - u then maxDuration
      else if t - u < minDuration then minDuration
      else t - u)"

record credential =
  AccessKey :: string
  SecretKey :: string

record authConfig =
  accessKey :: string
  secretKey :: string
  serverAddr :: string
  secureConn :: bool
  serviceEndpoint :: string
  serviceName :: string

text \<open>
  The interface \<^verbatim>\<open>adminCmdRunner\<close> has the two implementations of this file. The
  \<^verbatim>\<open>AuthRPCClient\<close> built by \<^verbatim>\<open>newAuthRPCClient(cfg)\<close> is identified with its
  configuration.
\<close>

datatype adminCmdRunner = localAdminClient | remoteAdminClient authConfig

record adminPeer =
  addr :: string
  cmdRunner :: adminCmdRunner

text \<open>Of a \<^verbatim>\<open>url.URL\<close> the file reads the field \<^verbatim>\<open>Host\<close> only.\<close>

record URL =
  Scheme :: string
  Host :: string
  Path :: string

text \<open>
  Of a \<^verbatim>\<open>VolumeLockInfo\<close> the file reads \<^verbatim>\<open>Bucket\<close> and \<^verbatim>\<open>Object\<close>; the rest of the
  struct, declared with the lock instrumentation, is the field \<open>lockDetails\<close>.
\<close>

record 'l VolumeLockInfo =
  Bucket :: string
  Object :: string
  lockDetails :: 'l

record nsParam =
  volume :: string
  path :: string

text \<open>One element of an \<^verbatim>\<open>uptimeSlice\<close>.\<close>

record uptimeEntry =
  err :: "error option"
  uptime :: Duration

text \<open>
  What the functions of this file read from the process and from the network:
  the globals \<^verbatim>\<open>globalIsDistXL\<close>, \<^verbatim>\<open>globalBootTime\<close> and \<^verbatim>\<open>serverConfig\<close> (\<open>None\<close> is
  the \<^verbatim>\<open>nil\<close> pointer), the clock reading \<^verbatim>\<open>time.Now().UTC()\<close>, the local lock
  instrumentation \<^verbatim>\<open>listLocksInfo\<close>, the outcome of \<^verbatim>\<open>rc.Call\<close> for each RPC method
  (the returned error, with the reply where the method has one), and the two
  functions of \<^verbatim>\<open>encoding/json\<close> at the type of the server configuration \<open>'c\<close>.
\<close>

record ('c, 'l) env =
  globalIsDistXL :: bool
  globalBootTime :: Time
  timeNow :: Time
  serverConfig :: "'c option"
  listLocksInfo :: "string \<Rightarrow> string \<Rightarrow> Duration \<Rightarrow> 'l VolumeLockInfo list"
  callListLocks ::
    "authConfig \<Rightarrow> string \<Rightarrow> string \<Rightarrow> Duration \<Rightarrow> error option \<times> 'l VolumeLockInfo list"
  callReInitDisks :: "authConfig \<Rightarrow> error option"
  callUptime :: "authConfig \<Rightarrow> error option \<times> Duration"
  callGetConfig :: "authConfig \<Rightarrow> error option \<times> string"
  jsonMarshal :: "'c \<Rightarrow> string \<times> error option"
  jsonUnmarshal :: "string \<Rightarrow> error + 'c"

section \<open>The command runners\<close>

fun ListLocks ::
  "('c, 'l) env \<Rightarrow> adminCmdRunner \<Rightarrow> string \<Rightarrow> string \<Rightarrow> Duration
     \<Rightarrow> 'l VolumeLockInfo list \<times> error option" where
  "ListLocks w localAdminClient bucket pfx duration =
     (listLocksInfo w bucket pfx duration, None)"
| "ListLocks w (remoteAdminClient rc) bucket pfx duration =
     (case callListLocks w rc bucket pfx duration of
        (Some e, reply) \<Rightarrow> ([], Some e)
      | (None, reply) \<Rightarrow> (reply, None))"

fun ReInitDisks :: "('c, 'l) env \<Rightarrow> adminCmdRunner \<Rightarrow> error option" where
  "ReInitDisks w localAdminClient = None"
| "ReInitDisks w (remoteAdminClient rc) = callReInitDisks w rc"

fun Uptime :: "('c, 'l) env \<Rightarrow> adminCmdRunner \<Rightarrow> Duration \<times> error option" where
  "Uptime w localAdminClient =
     (if time_IsZero (globalBootTime w) then (0, Some errServerNotInitialized)
      else (time_Sub (timeNow w) (globalBootTime w), None))"
| "Uptime w (remoteAdminClient rc) =
     (case callUptime w rc of
        (Some e, reply) \<Rightarrow> (0, Some e)
      | (None, reply) \<Rightarrow> (reply, None))"

fun GetConfig :: "('c, 'l) env \<Rightarrow> adminCmdRunner \<Rightarrow> string \<times> error option" where
  "GetConfig w localAdminClient =
     (case serverConfig w of
        None \<Rightarrow> ([], Some errConfigNotPresent)
      | Some c \<Rightarrow> jsonMarshal w c)"
| "GetConfig w (remoteAdminClient rc) =
     (case callGetConfig w rc of
        (Some e, reply) \<Rightarrow> ([], Some e)
      | (None, reply) \<Rightarrow> (reply, None))"

section \<open>makeAdminPeers\<close>

text \<open>
  The globals read by \<^verbatim>\<open>makeAdminPeers\<close>: the local address, the credential returned
  by \<^verbatim>\<open>serverConfig.GetCredential()\<close>, \<^verbatim>\<open>globalIsSSL\<close>, and the value of
  \<^verbatim>\<open>path.Join(minioReservedBucketPath, adminPath)\<close>, two constants declared elsewhere.
\<close>

record peerGlobals =
  globalMinioAddr :: string
  serverCred :: credential
  globalIsSSL :: bool
  adminServiceEndpoint :: string

text \<open>
  The loop over the endpoints; the state is the pair of \<^verbatim>\<open>servicePeers\<close> and the map
  \<^verbatim>\<open>seenAddr\<close>, where a key that was never stored reads \<^verbatim>\<open>false\<close>.
\<close>

fun makeAdminPeersLoop ::
  "peerGlobals \<Rightarrow> URL list \<Rightarrow> adminPeer list \<times> (string \<Rightarrow> bool)
     \<Rightarrow> adminPeer list \<times> (string \<Rightarrow> bool)" where
  "makeAdminPeersLoop g [] st = st"
| "makeAdminPeersLoop g (ep # eps) (servicePeers, seenAddr) =
     (if Host ep = [] then makeAdminPeersLoop g eps (servicePeers, seenAddr)
      else if \<not> seenAddr (Host ep) then
        (let cfg = \<lparr> accessKey = AccessKey (serverCred g),
                      secretKey = SecretKey (serverCred g),
                      serverAddr = Host ep,
                      secureConn = globalIsSSL g,
                      serviceEndpoint = adminServiceEndpoint g,
                      serviceName = ''Admin'' \<rparr>
         in makeAdminPeersLoop g eps
              (servicePeers @ [\<lparr> addr = Host ep, cmdRunner = remoteAdminClient cfg \<rparr>],
               seenAddr(Host ep := True)))
      else makeAdminPeersLoop g eps (servicePeers, seenAddr))"

definition makeAdminPeers :: "peerGlobals \<Rightarrow> URL list \<Rightarrow> adminPeer list" where
  "makeAdminPeers g eps =
     fst (makeAdminPeersLoop g eps
            ([\<lparr> addr = globalMinioAddr g, cmdRunner = localAdminClient \<rparr>],
             (\<lambda>a. False)(globalMinioAddr g := True)))"

section \<open>listPeerLocksInfo\<close>

text \<open>
  \<^verbatim>\<open>paramLockMap[param] = append(paramLockMap[param], lockInfo)\<close> on a map held as
  an association list with distinct keys.
\<close>

fun appendLock ::
  "nsParam \<Rightarrow> 'l VolumeLockInfo \<Rightarrow> (nsParam \<times> 'l VolumeLockInfo list) list
     \<Rightarrow> (nsParam \<times> 'l VolumeLockInfo list) list" where
  "appendLock param lockInfo [] = [(param, [lockInfo])]"
| "appendLock param lockInfo ((k, volLocks) # m) =
     (if k = param then (k, volLocks @ [lockInfo]) # m
      else (k, volLocks) # appendLock param lockInfo m)"

definition groupLocks ::
  "'l VolumeLockInfo list list \<Rightarrow> (nsParam \<times> 'l VolumeLockInfo list) list" where
  "groupLocks allLocks =
     fold (\<lambda>nodeLocks paramLockMap.
             fold (\<lambda>lockInfo. appendLock \<lparr> volume = Bucket lockInfo, path = Object lockInfo \<rparr> lockInfo)
               nodeLocks paramLockMap)
       allLocks []"

text \<open>
  \<^verbatim>\<open>reduceErrs\<close> is declared in another file of the package and is a parameter here: it
  takes the per-peer errors and the ignored errors and returns a count and an error.
  The order in which \<^verbatim>\<open>range\<close> visits the entries of a Go map is not specified; it is
  the parameter \<open>mapRange\<close>. The remote peers are called first and the local peer after
  them; the calls do not depend on each other in this model.
\<close>

definition listPeerLocksInfo ::
  "(error option list \<Rightarrow> error option list \<Rightarrow> nat \<times> error option)
   \<Rightarrow> ((nsParam \<times> 'l VolumeLockInfo list) list \<Rightarrow> (nsParam \<times> 'l VolumeLockInfo list) list)
   \<Rightarrow> ('c, 'l) env \<Rightarrow> adminPeer list \<Rightarrow> string \<Rightarrow> string \<Rightarrow> Duration
   \<Rightarrow> ('l VolumeLockInfo list \<times> error option) outcome" where
  "listPeerLocksInfo reduceErrs mapRange w peers bucket pfx duration =
     (case peers of
        [] \<Rightarrow> Panic
      | localPeer # remotePeers \<Rightarrow>
          (let remoteRes = map (\<lambda>remotePeer. ListLocks w (cmdRunner remotePeer) bucket pfx duration)
                          remotePeers;
               localRes = ListLocks w (cmdRunner localPeer) bucket pfx duration;
               allLocks = map fst (localRes # remoteRes);
               errs = map snd (localRes # remoteRes)
           in case reduceErrs errs [] of
                (errCount, Some e) \<Rightarrow>
                  if length peers div 2 + 1 \<le> errCount then Return ([], Some e)
                  else Return ([], Some InsufficientReadQuorum)
              | (errCount, None) \<Rightarrow>
                  Return (concat (map snd (mapRange (groupLocks allLocks))), None)))"

text \<open>
  Modelled from the spec: \<^verbatim>\<open>reduceErrs\<close>, the Quorum Reducer, is declared in another file
  of the package. It finds the value that dominates the error array, and its frequency:
  the entries that are not among the ignored errors are counted per value in the map
  \<^verbatim>\<open>errorCounts\<close>, the \<^verbatim>\<open>nil\<close> of a successful peer being a value like any other, and
  a value with the largest count is returned with that count. The map is an association
  list with distinct keys; the order in which its entries are visited is the parameter
  \<open>rangeCounts\<close>, and the first entry visited that has the largest count is returned.
\<close>

fun countErr ::
  "error option \<Rightarrow> (error option \<times> nat) list \<Rightarrow> (error option \<times> nat) list" where
  "countErr e [] = [(e, 1)]"
| "countErr e ((k, n) # errorCounts) =
     (if k = e then (k, n + 1) # errorCounts else (k, n) # countErr e errorCounts)"

fun maxErrStep :: "error option \<times> nat \<Rightarrow> nat \<times> error option \<Rightarrow> nat \<times> error option" where
  "maxErrStep (e, n) (mx, errMax) = (if mx < n then (n, e) else (mx, errMax))"

definition reduceErrs ::
  "((error option \<times> nat) list \<Rightarrow> (error option \<times> nat) list)
   \<Rightarrow> error option list \<Rightarrow> error option list \<Rightarrow> nat \<times> error option" where
  "reduceErrs rangeCounts errs ignoredErrs =
     (let errorCounts = fold countErr (filter (\<lambda>e. e \<notin> set ignoredErrs) errs) []
      in fold maxErrStep (rangeCounts errorCounts) (0, None))"

section \<open>reInitPeerDisks\<close>

text \<open>The array \<open>errs\<close> filled by the calls, and the function, which does not read it.\<close>

definition reInitPeerDisksErrs :: "('c, 'l) env \<Rightarrow> adminPeer list \<Rightarrow> error option list" where
  "reInitPeerDisksErrs w peers = map (\<lambda>peer. ReInitDisks w (cmdRunner peer)) peers"

definition reInitPeerDisks :: "('c, 'l) env \<Rightarrow> adminPeer list \<Rightarrow> error option" where
  "reInitPeerDisks w peers = (let errs = reInitPeerDisksErrs w peers in None)"

section \<open>getPeerUptimes\<close>

text \<open>
  The loop over the sorted \<open>uptimes\<close>, with its \<^verbatim>\<open>continue\<close> and its \<^verbatim>\<open>break\<close>; the state is
  \<open>(validCount, latestUptime)\<close>.
\<close>

fun scanUptimes :: "nat \<Rightarrow> uptimeEntry list \<Rightarrow> nat \<times> Duration \<Rightarrow> nat \<times> Duration" where
  "scanUptimes readQuorum [] st = st"
| "scanUptimes readQuorum (u # us) (validCount, latestUptime) =
     (if err u \<noteq> None then scanUptimes readQuorum us (validCount, latestUptime)
      else if readQuorum \<le> validCount + 1 then (validCount + 1, uptime u)
      else scanUptimes readQuorum us (validCount + 1, latestUptime))"

text \<open>
  \<^verbatim>\<open>sort.Sort\<close> is not stable and orders the entries by \<open>uptime\<close> alone; the sorting
  function is the parameter \<open>sortSort\<close>, of which the theorems assume only that it
  permutes its argument into ascending order of \<open>uptime\<close>.
\<close>

definition getPeerUptimes ::
  "(uptimeEntry list \<Rightarrow> uptimeEntry list) \<Rightarrow> ('c, 'l) env \<Rightarrow> adminPeer list
     \<Rightarrow> Duration \<times> error option" where
  "getPeerUptimes sortSort w peers =
     (if \<not> globalIsDistXL w then (time_Sub (timeNow w) (globalBootTime w), None)
      else
        (let uptimes = map (\<lambda>peer. case Uptime w (cmdRunner peer) of
                                      (d, e) \<Rightarrow> \<lparr> err = e, uptime = d \<rparr>) peers;
             uptimes = sortSort uptimes;
             readQuorum = length uptimes div 2
         in case scanUptimes readQuorum uptimes (0, 0) of
              (validCount, latestUptime) \<Rightarrow>
                if validCount < readQuorum then (0, Some InsufficientReadQuorum)
                else (latestUptime, None)))"

section \<open>getValidServerConfig\<close>

text \<open>
  The inner loop of \<^verbatim>\<open>getValidServerConfig\<close> (\<^verbatim>\<open>for j := 0; j <= i; j++\<close>), started at \<open>j\<close>,
  on the counter array \<open>configCounter\<close>. \<^verbatim>\<open>reflect.DeepEqual\<close> on two decoded
  configurations is equality of the values of the type \<open>'c\<close>. The three guarded
  branches are the source's; when none applies the body does nothing and the loop goes
  on with \<open>j + 1\<close>.
\<close>

function innerLoop :: "'c list \<Rightarrow> nat list \<Rightarrow> nat \<Rightarrow> nat \<Rightarrow> nat list" where
  "innerLoop serverConfigs configCounter i j =
     (if j \<le> i then
        (if j < i \<and> configCounter ! j = 0 then
           innerLoop serverConfigs configCounter i (j + 1)
         else if j < i \<and> serverConfigs ! i = serverConfigs ! j then
           configCounter[j := configCounter ! j + 1]
         else if j = i then
           configCounter[i := 1]
         else innerLoop serverConfigs configCounter i (j + 1))
      else configCounter)"
  by pat_completeness auto
termination
  by (relation "measure (\<lambda>(serverConfigs, configCounter, i, j). Suc i - j)") auto

declare innerLoop.simps [simp del]

text \<open>
  One iteration of the outer loop (\<^verbatim>\<open>for i := range serverConfigs\<close>). Reading \<^verbatim>\<open>errs[i]\<close>
  beyond the end of \<open>errs\<close> panics; the state \<open>None\<close> is that panic.
\<close>

definition countStep ::
  "'c list \<Rightarrow> error option list \<Rightarrow> nat \<Rightarrow> nat list option \<Rightarrow> nat list option" where
  "countStep serverConfigs errs i st =
     (case st of
        None \<Rightarrow> None
      | Some configCounter \<Rightarrow>
          if length errs \<le> i then None
          else if errs ! i \<noteq> None then Some configCounter
          else Some (innerLoop serverConfigs configCounter i 0))"

definition countConfigs :: "'c list \<Rightarrow> error option list \<Rightarrow> nat list option" where
  "countConfigs serverConfigs errs =
     fold (countStep serverConfigs errs) [0..<length serverConfigs]
       (Some (replicate (length serverConfigs) 0))"

text \<open>
  The second loop (\<^verbatim>\<open>for i, count := range configCounter\<close>): the state is the pair
  \<open>(maxOccurrence, configJSON)\<close>, started at \<open>(0, z)\<close> where \<open>z\<close> is the zero value
  \<^verbatim>\<open>serverConfigV13{}\<close>.
\<close>

definition maxStep :: "'c list \<Rightarrow> nat list \<Rightarrow> nat \<Rightarrow> nat \<times> 'c \<Rightarrow> nat \<times> 'c" where
  "maxStep serverConfigs configCounter i st =
     (case st of (maxOccurrence, configJSON) \<Rightarrow>
        if maxOccurrence < configCounter ! i
        then (configCounter ! i, serverConfigs ! i)
        else (maxOccurrence, configJSON))"

definition maxOccurring :: "'c \<Rightarrow> 'c list \<Rightarrow> nat list \<Rightarrow> nat \<times> 'c" where
  "maxOccurring z serverConfigs configCounter =
     fold (maxStep serverConfigs configCounter) [0..<length configCounter] (0, z)"

definition getValidServerConfig ::
  "'c \<Rightarrow> 'c list \<Rightarrow> error option list \<Rightarrow> ('c \<times> error option) outcome" where
  "getValidServerConfig z serverConfigs errs =
     (let quorum = length serverConfigs div 2 + 1 in
      case countConfigs serverConfigs errs of
        None \<Rightarrow> Panic
      | Some configCounter \<Rightarrow>
          (case maxOccurring z serverConfigs configCounter of
             (maxOccurrence, configJSON) \<Rightarrow>
               if maxOccurrence < quorum then Return (z, Some errXLWriteQuorum)
               else Return (configJSON, None)))"

section \<open>getPeerConfig\<close>

text \<open>
  The loop that fills \<^verbatim>\<open>serverConfigs\<close> from the gathered \<open>(configs[i], errs[i])\<close>: the
  entry of a peer whose call failed keeps the zero value \<open>z\<close>, and the first payload
  that \<^verbatim>\<open>json.Unmarshal\<close> rejects ends the function (\<open>Inl\<close>).
\<close>

fun unmarshalConfigs ::
  "('c, 'l) env \<Rightarrow> 'c \<Rightarrow> (string \<times> error option) list \<Rightarrow> error + 'c list" where
  "unmarshalConfigs w z [] = Inr []"
| "unmarshalConfigs w z ((configBytes, e) # rest) =
     (if e \<noteq> None then
        (case unmarshalConfigs w z rest of
           Inl decodeErr \<Rightarrow> Inl decodeErr
         | Inr serverConfigs \<Rightarrow> Inr (z # serverConfigs))
      else
        (case jsonUnmarshal w configBytes of
           Inl decodeErr \<Rightarrow> Inl decodeErr
         | Inr c \<Rightarrow>
             (case unmarshalConfigs w z rest of
                Inl decodeErr \<Rightarrow> Inl decodeErr
              | Inr serverConfigs \<Rightarrow> Inr (c # serverConfigs))))"

definition getPeerConfig ::
  "'c \<Rightarrow> ('c, 'l) env \<Rightarrow> adminPeer list \<Rightarrow> (string \<times> error option) outcome" where
  "getPeerConfig z w peers =
     (if \<not> globalIsDistXL w then
        (case peers of
           [] \<Rightarrow> Panic
         | peer0 # _ \<Rightarrow> Return (GetConfig w (cmdRunner peer0)))
      else
        (let gathered = map (\<lambda>peer. GetConfig w (cmdRunner peer)) peers;
             errs = map snd gathered
         in case unmarshalConfigs w z gathered of
              Inl decodeErr \<Rightarrow> Return ([], Some decodeErr)
            | Inr serverConfigs \<Rightarrow>
                (case getValidServerConfig z serverConfigs errs of
                   Panic \<Rightarrow> Panic
                 | Return (configJSON, Some quorumErr) \<Rightarrow> Return ([], Some (traceError quorumErr))
                 | Return (configJSON, None) \<Rightarrow> Return (jsonMarshal w configJSON))))"

section \<open>Notions used to state the properties\<close>

text \<open>
  The number of peers among the first \<open>i\<close> that returned no error and whose snapshot
  is \<open>c\<close>; with \<open>i\<close> the number of peers, the occurrence count of \<open>c\<close>.
\<close>

definition occurrencesUpto :: "'c list \<Rightarrow> error option list \<Rightarrow> nat \<Rightarrow> 'c \<Rightarrow> nat" where
  "occurrencesUpto serverConfigs errs i c =
     length (filter (\<lambda>k. errs ! k = None \<and> serverConfigs ! k = c) [0..<i])"

definition occurrences :: "'c list \<Rightarrow> error option list \<Rightarrow> 'c \<Rightarrow> nat" where
  "occurrences serverConfigs errs c =
     occurrencesUpto serverConfigs errs (length serverConfigs) c"

text \<open>The largest occurrence count of the snapshot of an error-free peer (\<open>0\<close> without one).\<close>

definition maxOccurrences :: "'c list \<Rightarrow> error option list \<Rightarrow> nat" where
  "maxOccurrences serverConfigs errs =
     Max (set (0 # map (\<lambda>k. occurrences serverConfigs errs (serverConfigs ! k))
                     (filter (\<lambda>k. errs ! k = None) [0..<length serverConfigs])))"

text \<open>
  Index \<open>j\<close> is an anchor: peer \<open>j\<close> returned no error and no error-free peer before it
  holds an equal snapshot.
\<close>

definition anchor :: "'c list \<Rightarrow> error option list \<Rightarrow> nat \<Rightarrow> bool" where
  "anchor serverConfigs errs j \<longleftrightarrow>
     errs ! j = None \<and> (\<forall>k<j. errs ! k = None \<longrightarrow> serverConfigs ! k \<noteq> serverConfigs ! j)"

text \<open>The invariant of the counting loop at the beginning of iteration \<open>i\<close>.\<close>

definition counterInv :: "'c list \<Rightarrow> error option list \<Rightarrow> nat \<Rightarrow> nat list \<Rightarrow> bool" where
  "counterInv serverConfigs errs i configCounter \<longleftrightarrow>
     length configCounter = length serverConfigs \<and>
     (\<forall>j<length serverConfigs.
        configCounter ! j =
          (if j < i \<and> anchor serverConfigs errs j
           then occurrencesUpto serverConfigs errs i (serverConfigs ! j) else 0))"

text \<open>The uptimes reported without error, in the order of the peers.\<close>

definition validUptimes :: "('c, 'l) env \<Rightarrow> adminPeer list \<Rightarrow> Duration list" where
  "validUptimes w peers =
     map fst (filter (\<lambda>r. snd r = None) (map (\<lambda>peer. Uptime w (cmdRunner peer)) peers))"

text \<open>The per-peer results of \<^verbatim>\<open>ListLocks\<close>, and the records of the peers that succeeded.\<close>

definition gatherLocks ::
  "('c, 'l) env \<Rightarrow> adminPeer list \<Rightarrow> string \<Rightarrow> string \<Rightarrow> Duration
     \<Rightarrow> ('l VolumeLockInfo list \<times> error option) list" where
  "gatherLocks w peers bucket pfx duration =
     map (\<lambda>peer. ListLocks w (cmdRunner peer) bucket pfx duration) peers"



text \<open>The per-peer results of \<^verbatim>\<open>GetConfig\<close>.\<close>

definition gatherConfigs :: "('c, 'l) env \<Rightarrow> adminPeer list \<Rightarrow> (string \<times> error option) list" where
  "gatherConfigs w peers = map (\<lambda>peer. GetConfig w (cmdRunner peer)) peers"

text \<open>
  The addresses of a list in the order of their first appearance, each once:
  \<open>remdups\<close> keeps the last occurrence of each element, hence the two reversals.
\<close>

definition firstAppearances :: "string list \<Rightarrow> string list" where
  "firstAppearances hosts = rev (remdups (rev hosts))"

text \<open>The remote runner that \<^verbatim>\<open>makeAdminPeers\<close> wires for the address \<open>a\<close>.\<close>

definition remoteRunner :: "peerGlobals \<Rightarrow> string \<Rightarrow> adminCmdRunner" where
  "remoteRunner g a =
     remoteAdminClient \<lparr> accessKey = AccessKey (serverCred g),
                         secretKey = SecretKey (serverCred g),
                         serverAddr = a,
                         secureConn = globalIsSSL g,
                         serviceEndpoint = adminServiceEndpoint g,
                         serviceName = ''Admin'' \<rparr>"

section \<open>A five-node cluster, for the concrete instances\<close>

text \<open>\<^verbatim>\<open>time.Minute\<close>, in nanoseconds.\<close>

definition minute :: Duration where
  "minute = 60 * 1000000000"

definition clusterGlobals :: peerGlobals where
  "clusterGlobals =
     \<lparr> globalMinioAddr = ''node1:9000'',
       serverCred = \<lparr> AccessKey = ''minio'', SecretKey = ''minio123'' \<rparr>,
       globalIsSSL = False,
       adminServiceEndpoint = ''/minio/admin'' \<rparr>"

definition clusterEndpoints :: "URL list" where
  "clusterEndpoints =
     [\<lparr> Scheme = ''http'', Host = ''node1:9000'', Path = ''/export'' \<rparr>,
      \<lparr> Scheme = ''http'', Host = ''node2:9000'', Path = ''/export'' \<rparr>,
      \<lparr> Scheme = '''', Host = '''', Path = ''/export2'' \<rparr>,
      \<lparr> Scheme = ''http'', Host = ''node3:9000'', Path = ''/export'' \<rparr>,
      \<lparr> Scheme = ''http'', Host = ''node2:9000'', Path = ''/export2'' \<rparr>,
      \<lparr> Scheme = ''http'', Host = ''node4:9000'', Path = ''/export'' \<rparr>,
      \<lparr> Scheme = ''http'', Host = ''node5:9000'', Path = ''/export'' \<rparr>]"

definition clusterPeers :: "adminPeer list" where
  "clusterPeers = makeAdminPeers clusterGlobals clusterEndpoints"

text \<open>
  The local server booted ten minutes ago and holds the configuration \<open>cfgA\<close>; the
  remote servers report uptimes of twenty to fifty minutes and the same
  configuration; \<open>node2\<close> refuses \<^verbatim>\<open>Admin.ListLocks\<close>, and every remote server refuses
  \<^verbatim>\<open>Admin.ReInitDisks\<close>. A configuration is its own JSON text, except that the text
  \<open>garbage\<close> does not decode.
\<close>

definition clusterEnv :: "(string, unit) env" where
  "clusterEnv =
     \<lparr> globalIsDistXL = True,
       globalBootTime = 1000 * minute,
       timeNow = 1010 * minute,
       serverConfig = Some ''cfgA'',
       listLocksInfo = (\<lambda>bucket pfx duration.
          [\<lparr> Bucket = bucket, Object = ''obj1'', lockDetails = () \<rparr>]),
       callListLocks = (\<lambda>rc bucket pfx duration.
          if serverAddr rc = ''node2:9000'' then (Some (rpcError ''connection refused''), [])
          else (None, [\<lparr> Bucket = bucket, Object = ''obj2'', lockDetails = () \<rparr>,
                       \<lparr> Bucket = bucket, Object = ''obj1'', lockDetails = () \<rparr>])),
       callReInitDisks = (\<lambda>rc. Some (rpcError ''connection refused'')),
       callUptime = (\<lambda>rc.
          if serverAddr rc = ''node2:9000'' then (None, 50 * minute)
          else if serverAddr rc = ''node3:9000'' then (None, 20 * minute)
          else if serverAddr rc = ''node4:9000'' then (None, 40 * minute)
          else (None, 30 * minute)),
       callGetConfig = (\<lambda>rc. (None, ''cfgA'')),
       jsonMarshal = (\<lambda>c. (c, None)),
       jsonUnmarshal = (\<lambda>configBytes.
          if configBytes = ''garbage'' then Inl (jsonError ''invalid character'')
          else Inr configBytes) \<rparr>"




section \<open>Properties of getValidServerConfig\<close>

lemma occurrencesUpto_Suc:
  "occurrencesUpto cfgs errs (Suc i) c =
     occurrencesUpto cfgs errs i c + (if errs ! i = None \<and> cfgs ! i = c then 1 else 0)"
  by (simp add: occurrencesUpto_def)

lemma innerLoop_found:
  "j \<le> a \<Longrightarrow> a < i \<Longrightarrow> cc ! a \<noteq> 0 \<Longrightarrow> cfgs ! i = cfgs ! a \<Longrightarrow>
   (\<forall>k. j \<le> k \<and> k < a \<longrightarrow> cc ! k = 0 \<or> cfgs ! i \<noteq> cfgs ! k) \<Longrightarrow>
   innerLoop cfgs cc i j = cc[a := cc ! a + 1]"
proof (induction cfgs cc i j rule: innerLoop.induct)
  case (1 cfgs cc i j)
  show ?case
  proof (cases "j = a")
    case True
    with "1.prems" show ?thesis by (subst innerLoop.simps) simp
  next
    case False
    with "1.prems" have ja: "j < a" "j < i" "j \<le> i" by auto
    from "1.prems" ja have skip: "cc ! j = 0 \<or> cfgs ! i \<noteq> cfgs ! j" by blast
    have rest: "innerLoop cfgs cc i (j + 1) = cc[a := cc ! a + 1]"
    proof (cases "cc ! j = 0")
      case True
      show ?thesis
        by (rule "1.IH"(1)) (use ja True "1.prems" in auto)
    next
      case False
      with skip have ne: "cfgs ! i \<noteq> cfgs ! j" by simp
      show ?thesis
        by (rule "1.IH"(2)) (use ja False ne "1.prems" in auto)
    qed
    from ja skip rest show ?thesis by (subst innerLoop.simps) auto
  qed
qed

lemma innerLoop_new:
  "j \<le> i \<Longrightarrow> (\<forall>k. j \<le> k \<and> k < i \<longrightarrow> cc ! k = 0 \<or> cfgs ! i \<noteq> cfgs ! k) \<Longrightarrow>
   innerLoop cfgs cc i j = cc[i := 1]"
proof (induction cfgs cc i j rule: innerLoop.induct)
  case (1 cfgs cc i j)
  show ?case
  proof (cases "j = i")
    case True
    then show ?thesis by (subst innerLoop.simps) simp
  next
    case False
    with "1.prems" have ji: "j < i" "j \<le> i" by auto
    from "1.prems" ji have skip: "cc ! j = 0 \<or> cfgs ! i \<noteq> cfgs ! j" by blast
    have rest: "innerLoop cfgs cc i (j + 1) = cc[i := 1]"
    proof (cases "cc ! j = 0")
      case True
      show ?thesis
        by (rule "1.IH"(1)) (use ji True "1.prems" in auto)
    next
      case False
      with skip have ne: "cfgs ! i \<noteq> cfgs ! j" by simp
      show ?thesis
        by (rule "1.IH"(2)) (use ji False ne "1.prems" in auto)
    qed
    from ji skip rest show ?thesis by (subst innerLoop.simps) auto
  qed
qed

lemma anchor_unique:
  assumes "anchor cfgs errs a" "anchor cfgs errs b" "cfgs ! a = cfgs ! b"
  shows "a = b"
proof (rule ccontr)
  assume "a \<noteq> b"
  then consider "a < b" | "b < a" by linarith
  then show False
    using assms by cases (auto simp: anchor_def)
qed

lemma anchor_exists:
  assumes "errs ! i = None"
  shows "\<exists>a\<le>i. anchor cfgs errs a \<and> cfgs ! a = cfgs ! i"
proof -
  define P where "P k \<longleftrightarrow> errs ! k = None \<and> cfgs ! k = cfgs ! i" for k
  have Pi: "P i" using assms by (simp add: P_def)
  define a where "a = (LEAST k. P k)"
  have Pa: "P a" unfolding a_def using Pi by (rule LeastI)
  have le: "a \<le> i" unfolding a_def using Pi by (rule Least_le)
  have "\<forall>k<a. \<not> P k" unfolding a_def using not_less_Least by blast
  with Pa have "anchor cfgs errs a" by (auto simp: anchor_def P_def)
  with Pa le show ?thesis by (auto simp: P_def)
qed

lemma occurrencesUpto_pos:
  "k < i \<Longrightarrow> errs ! k = None \<Longrightarrow> 0 < occurrencesUpto cfgs errs i (cfgs ! k)"
  by (auto simp: occurrencesUpto_def filter_empty_conv)

lemma occurrencesUpto_zero:
  "(\<forall>k<i. errs ! k = None \<longrightarrow> cfgs ! k \<noteq> c) \<Longrightarrow> occurrencesUpto cfgs errs i c = 0"
  by (auto simp: occurrencesUpto_def filter_empty_conv)

lemma counterInv_nonzero:
  assumes "counterInv cfgs errs i cc" "j < length cfgs"
  shows "cc ! j \<noteq> 0 \<longleftrightarrow> j < i \<and> anchor cfgs errs j"
proof -
  from assms have v: "cc ! j = (if j < i \<and> anchor cfgs errs j
                  then occurrencesUpto cfgs errs i (cfgs ! j) else 0)"
    by (simp add: counterInv_def)
  show ?thesis
  proof (cases "j < i \<and> anchor cfgs errs j")
    case True
    then have "0 < occurrencesUpto cfgs errs i (cfgs ! j)"
      by (intro occurrencesUpto_pos) (auto simp: anchor_def)
    with v True show ?thesis by simp
  next
    case False
    with v show ?thesis by auto
  qed
qed

lemma counterInv_step_err:
  assumes "counterInv cfgs errs i cc" "errs ! i \<noteq> None"
  shows "counterInv cfgs errs (Suc i) cc"
proof -
  have na: "\<not> anchor cfgs errs i" using assms(2) by (simp add: anchor_def)
  have occ: "occurrencesUpto cfgs errs (Suc i) c = occurrencesUpto cfgs errs i c" for c
    using assms(2) by (simp add: occurrencesUpto_Suc)
  have "(j < Suc i \<and> anchor cfgs errs j) = (j < i \<and> anchor cfgs errs j)" for j
    using na less_Suc_eq by blast
  with assms(1) occ show ?thesis
    unfolding counterInv_def by simp
qed

lemma counterInv_step_ok:
  assumes inv: "counterInv cfgs errs i cc" and i: "i < length cfgs" and ok: "errs ! i = None"
  shows "counterInv cfgs errs (Suc i) (innerLoop cfgs cc i 0)"
proof -
  have len: "length cc = length cfgs" using inv by (simp add: counterInv_def)
  have val: "\<And>j. j < length cfgs \<Longrightarrow> cc ! j = (if j < i \<and> anchor cfgs errs j
                  then occurrencesUpto cfgs errs i (cfgs ! j) else 0)"
    using inv by (simp add: counterInv_def)
  from anchor_exists[OF ok] obtain a where a: "a \<le> i" "anchor cfgs errs a" "cfgs ! a = cfgs ! i"
    by blast
  show ?thesis
  proof (cases "a = i")
    case True
    have none: "\<forall>k. 0 \<le> k \<and> k < i \<longrightarrow> cc ! k = 0 \<or> cfgs ! i \<noteq> cfgs ! k"
    proof (intro allI impI)
      fix k assume k: "0 \<le> k \<and> k < i"
      show "cc ! k = 0 \<or> cfgs ! i \<noteq> cfgs ! k"
      proof (cases "cc ! k = 0")
        case False
        with counterInv_nonzero[OF inv, of k] k i have "anchor cfgs errs k" by simp
        with a True k have "cfgs ! i \<noteq> cfgs ! k" using anchor_unique[of cfgs errs k i] by auto
        then show ?thesis ..
      qed simp
    qed
    have res: "innerLoop cfgs cc i 0 = cc[i := 1]"
      by (rule innerLoop_new) (use none in auto)
    have anchor_i: "anchor cfgs errs i" using a True by simp
    have zero: "occurrencesUpto cfgs errs i (cfgs ! i) = 0"
      by (rule occurrencesUpto_zero) (use anchor_i in \<open>auto simp: anchor_def\<close>)
    show ?thesis
      unfolding counterInv_def res
    proof (intro conjI allI impI)
      show "length (cc[i := 1]) = length cfgs" using len by simp
    next
      fix j assume j: "j < length cfgs"
      show "cc[i := 1] ! j = (if j < Suc i \<and> anchor cfgs errs j
                  then occurrencesUpto cfgs errs (Suc i) (cfgs ! j) else 0)"
      proof (cases "j = i")
        case True
        with anchor_i zero ok i len show ?thesis by (simp add: occurrencesUpto_Suc)
      next
        case False
        have "anchor cfgs errs j \<Longrightarrow> cfgs ! i \<noteq> cfgs ! j"
          using anchor_unique[of cfgs errs j i] anchor_i False by auto
        with False val[OF j] len show ?thesis
          by (auto simp: occurrencesUpto_Suc less_Suc_eq)
      qed
    qed
  next
    case False
    with a have ai: "a < i" by simp
    have nz: "cc ! a \<noteq> 0" using counterInv_nonzero[OF inv, of a] ai i a by simp
    have none: "\<forall>k. 0 \<le> k \<and> k < a \<longrightarrow> cc ! k = 0 \<or> cfgs ! i \<noteq> cfgs ! k"
    proof (intro allI impI)
      fix k assume k: "0 \<le> k \<and> k < a"
      show "cc ! k = 0 \<or> cfgs ! i \<noteq> cfgs ! k"
      proof (cases "cc ! k = 0")
        case False
        with counterInv_nonzero[OF inv, of k] k i ai have "anchor cfgs errs k" by simp
        with a k have "cfgs ! i \<noteq> cfgs ! k" using anchor_unique[of cfgs errs k a] by auto
        then show ?thesis ..
      qed simp
    qed
    have res: "innerLoop cfgs cc i 0 = cc[a := cc ! a + 1]"
      by (rule innerLoop_found) (use none ai nz a in auto)
    have not_anchor_i: "\<not> anchor cfgs errs i"
      using a ai anchor_unique[of cfgs errs a i] by auto
    show ?thesis
      unfolding counterInv_def res
    proof (intro conjI allI impI)
      show "length (cc[a := cc ! a + 1]) = length cfgs" using len by simp
    next
      fix j assume j: "j < length cfgs"
      show "cc[a := cc ! a + 1] ! j = (if j < Suc i \<and> anchor cfgs errs j
                  then occurrencesUpto cfgs errs (Suc i) (cfgs ! j) else 0)"
      proof (cases "j = a")
        case True
        with a ai ok i len val[of a] show ?thesis by (simp add: occurrencesUpto_Suc)
      next
        case False
        have "anchor cfgs errs j \<Longrightarrow> cfgs ! i \<noteq> cfgs ! j"
          using anchor_unique[of cfgs errs j a] a False by auto
        with False val[OF j] len not_anchor_i show ?thesis
          by (auto simp: occurrencesUpto_Suc less_Suc_eq)
      qed
    qed
  qed
qed

lemma countConfigs_fold_inv:
  assumes "n \<le> length cfgs" "n \<le> length errs"
  shows "\<exists>cc. fold (countStep cfgs errs) [0..<n] (Some (replicate (length cfgs) 0)) = Some cc
           \<and> counterInv cfgs errs n cc"
  using assms
proof (induction n)
  case 0
  show ?case by (simp add: counterInv_def)
next
  case (Suc n)
  then obtain cc where cc: "fold (countStep cfgs errs) [0..<n] (Some (replicate (length cfgs) 0)) = Some cc"
    "counterInv cfgs errs n cc" by auto
  show ?case
  proof (cases "errs ! n = None")
    case True
    have "counterInv cfgs errs (Suc n) (innerLoop cfgs cc n 0)"
      by (rule counterInv_step_ok) (use cc True Suc.prems in auto)
    moreover have "countStep cfgs errs n (Some cc) = Some (innerLoop cfgs cc n 0)"
      using True Suc.prems by (simp add: countStep_def)
    ultimately show ?thesis using cc(1) by simp
  next
    case False
    have "counterInv cfgs errs (Suc n) cc"
      by (rule counterInv_step_err) (use cc False in auto)
    moreover have "countStep cfgs errs n (Some cc) = Some cc"
      using False Suc.prems by (simp add: countStep_def)
    ultimately show ?thesis using cc(1) by simp
  qed
qed

lemma countStep_None: "fold (countStep cfgs errs) is None = None"
  by (induction "is") (simp_all add: countStep_def)

lemma countConfigs_panic:
  assumes "length errs < length cfgs"
  shows "countConfigs cfgs errs = None"
proof -
  have "[0..<length cfgs] = [0..<length errs] @ length errs # [Suc (length errs)..<length cfgs]"
    using assms by (metis le_add1 less_imp_add_positive upt_add_eq_append upt_conv_Cons zero_order(1) add_Suc_right less_add_Suc1 plus_nat.add_0 Suc_eq_plus1)
  moreover obtain cc where "fold (countStep cfgs errs) [0..<length errs] (Some (replicate (length cfgs) 0)) = Some cc"
    using countConfigs_fold_inv[of "length errs" cfgs errs] assms by auto
  ultimately show ?thesis
    by (simp add: countConfigs_def countStep_def countStep_None)
qed

lemma getValidServerConfig_panic:
  "length errs < length serverConfigs \<Longrightarrow> getValidServerConfig z serverConfigs errs = Panic"
  by (simp add: getValidServerConfig_def countConfigs_panic)

lemma countConfigs_counterInv:
  assumes "length errs = length cfgs"
  shows "\<exists>cc. countConfigs cfgs errs = Some cc \<and> counterInv cfgs errs (length cfgs) cc"
  unfolding countConfigs_def
  by (rule countConfigs_fold_inv) (use assms in auto)

lemma counterInv_final:
  assumes "counterInv cfgs errs (length cfgs) cc" "j < length cfgs"
  shows "cc ! j = (if anchor cfgs errs j then occurrences cfgs errs (cfgs ! j) else 0)"
  using assms by (simp add: counterInv_def occurrences_def)

lemma maxOccurring_prefix:
  assumes "fold (maxStep cfgs cc) [0..<n] (0, z) = (m, c)"
  shows "(\<forall>j<n. cc ! j \<le> m) \<and>
         ((m = 0 \<and> c = z) \<or> (\<exists>w<n. 0 < m \<and> cc ! w = m \<and> c = cfgs ! w \<and> (\<forall>j<w. cc ! j < m)))"
  using assms
proof (induction n arbitrary: m c)
  case 0
  then show ?case by simp
next
  case (Suc n)
  obtain m0 c0 where prev: "fold (maxStep cfgs cc) [0..<n] (0, z) = (m0, c0)"
    by (cases "fold (maxStep cfgs cc) [0..<n] (0, z)") auto
  note IH = Suc.IH[OF prev]
  from Suc.prems prev have step: "maxStep cfgs cc n (m0, c0) = (m, c)" by simp
  show ?case
  proof (cases "m0 < cc ! n")
    case True
    with step have mc: "m = cc ! n" "c = cfgs ! n" by (simp_all add: maxStep_def)
    have le: "\<forall>j<Suc n. cc ! j \<le> m"
      using IH True mc by (auto simp: less_Suc_eq)
    have lt: "\<forall>j<n. cc ! j < m" using IH True mc by auto
    have "0 < m" using True mc by simp
    with mc lt have "\<exists>w<Suc n. 0 < m \<and> cc ! w = m \<and> c = cfgs ! w \<and> (\<forall>j<w. cc ! j < m)"
      by (intro exI[of _ n]) simp
    with le show ?thesis by blast
  next
    case False
    with step have mc: "m = m0" "c = c0" by (simp_all add: maxStep_def)
    have le: "\<forall>j<Suc n. cc ! j \<le> m"
      using IH False mc by (auto simp: less_Suc_eq)
    from IH mc have "(m = 0 \<and> c = z) \<or> (\<exists>w<Suc n. 0 < m \<and> cc ! w = m \<and> c = cfgs ! w \<and> (\<forall>j<w. cc ! j < m))"
      using less_Suc_eq by auto
    with le show ?thesis by blast
  qed
qed

lemma occurrencesUpto_disjoint:
  "c \<noteq> c' \<Longrightarrow> occurrencesUpto cfgs errs i c + occurrencesUpto cfgs errs i c' \<le> i"
proof (induction i)
  case 0
  then show ?case by (simp add: occurrencesUpto_def)
next
  case (Suc i)
  then show ?case by (auto simp: occurrencesUpto_Suc)
qed

lemma occurrences_anchor_le:
  assumes inv: "counterInv cfgs errs (length cfgs) cc"
    and bound: "\<forall>j<length cfgs. cc ! j \<le> m"
    and k: "k < length cfgs" "errs ! k = None"
  shows "occurrences cfgs errs (cfgs ! k) \<le> m"
proof -
  from anchor_exists[OF k(2)] obtain a where a: "a \<le> k" "anchor cfgs errs a" "cfgs ! a = cfgs ! k"
    by blast
  with k have "a < length cfgs" by simp
  with counterInv_final[OF inv this] a bound show ?thesis by (metis (full_types))
qed

text \<open>The result of the two loops, for parallel arrays of equal length.\<close>

lemma counting_result:
  assumes len: "length errs = length cfgs"
  obtains cc m c where
    "countConfigs cfgs errs = Some cc" "counterInv cfgs errs (length cfgs) cc"
    "maxOccurring z cfgs cc = (m, c)" "m = maxOccurrences cfgs errs"
    "\<forall>j<length cfgs. cc ! j \<le> m"
    "(m = 0 \<and> c = z) \<or>
     (\<exists>w<length cfgs. 0 < m \<and> anchor cfgs errs w \<and> occurrences cfgs errs (cfgs ! w) = m
         \<and> cc ! w = m \<and> c = cfgs ! w \<and> (\<forall>j<w. cc ! j < m))"
proof -
  from countConfigs_counterInv[OF len] obtain cc where
    cc: "countConfigs cfgs errs = Some cc" "counterInv cfgs errs (length cfgs) cc" by blast
  then have lcc: "length cc = length cfgs" by (simp add: counterInv_def)
  obtain m c where mc: "maxOccurring z cfgs cc = (m, c)"
    by (cases "maxOccurring z cfgs cc") auto
  then have f: "fold (maxStep cfgs cc) [0..<length cfgs] (0, z) = (m, c)"
    by (simp add: maxOccurring_def lcc)
  note P = maxOccurring_prefix[OF f]
  from P have bound: "\<forall>j<length cfgs. cc ! j \<le> m" by blast
  have sel: "(m = 0 \<and> c = z) \<or>
     (\<exists>w<length cfgs. 0 < m \<and> anchor cfgs errs w \<and> occurrences cfgs errs (cfgs ! w) = m
         \<and> cc ! w = m \<and> c = cfgs ! w \<and> (\<forall>j<w. cc ! j < m))"
  proof -
    from P consider "m = 0 \<and> c = z"
      | w where "w < length cfgs" "0 < m" "cc ! w = m" "c = cfgs ! w" "\<forall>j<w. cc ! j < m"
      by blast
    then show ?thesis
    proof cases
      case 1 then show ?thesis by blast
    next
      case 2
      from counterInv_final[OF cc(2) 2(1)] 2(2,3)
      have "anchor cfgs errs w \<and> occurrences cfgs errs (cfgs ! w) = m"
        by (auto split: if_splits)
      with 2 show ?thesis by blast
    qed
  qed
  have mx: "m = maxOccurrences cfgs errs"
  proof -
    let ?S = "set (0 # map (\<lambda>k. occurrences cfgs errs (cfgs ! k))
                     (filter (\<lambda>k. errs ! k = None) [0..<length cfgs]))"
    have "Max ?S = m"
    proof (rule Max_eqI)
      show "finite ?S" by simp
    next
      fix y assume "y \<in> ?S"
      then consider "y = 0" | k where "k < length cfgs" "errs ! k = None"
          "y = occurrences cfgs errs (cfgs ! k)" by auto
      then show "y \<le> m"
      proof cases
        case 1 then show ?thesis by simp
      next
        case 2
        with occurrences_anchor_le[OF cc(2) bound 2(1,2)] show ?thesis by simp
      qed
    next
      from sel show "m \<in> ?S"
      proof
        assume "m = 0 \<and> c = z" then show ?thesis by simp
      next
        assume "\<exists>w<length cfgs. 0 < m \<and> anchor cfgs errs w \<and> occurrences cfgs errs (cfgs ! w) = m
         \<and> cc ! w = m \<and> c = cfgs ! w \<and> (\<forall>j<w. cc ! j < m)"
        then obtain w where w: "w < length cfgs" "anchor cfgs errs w"
          "occurrences cfgs errs (cfgs ! w) = m" by blast
        then have "errs ! w = None" by (simp add: anchor_def)
        with w have "m \<in> (\<lambda>k. occurrences cfgs errs (cfgs ! k)) ` {k. k < length cfgs \<and> errs ! k = None}"
          by blast
        then show ?thesis by auto
      qed
    qed
    then show ?thesis by (simp add: maxOccurrences_def)
  qed
  from that[OF cc mc mx bound sel] show thesis .
qed

lemma occurrences_majority_unique:
  assumes "length cfgs div 2 + 1 \<le> occurrences cfgs errs c" "c' \<noteq> c"
  shows "occurrences cfgs errs c' < length cfgs div 2 + 1"
proof -
  have "occurrences cfgs errs c' + occurrences cfgs errs c \<le> length cfgs"
    unfolding occurrences_def by (rule occurrencesUpto_disjoint) (rule assms(2))
  with assms(1) show ?thesis by linarith
qed

lemma getValidServerConfig_examples:
  "getValidServerConfig '''' [''A'', ''B'', ''A'', ''A''] [None, None, None, None] = Return (''A'', None)"
  "getValidServerConfig '''' [''A'', ''B'', ''C'', ''D''] [None, None, None, None]
     = Return ('''', Some errXLWriteQuorum)"
  "getValidServerConfig '''' [''A'', ''B'', ''A'', ''B''] [None, None, None, None]
     = Return ('''', Some errXLWriteQuorum)"
  by code_simp+

text \<open>
  Claim C1. With one error entry per snapshot, \<^verbatim>\<open>getValidServerConfig\<close> succeeds exactly
  when the maximal occurrence count among the snapshots of the error-free peers is at
  least the write quorum \<open>N div 2 + 1\<close>; it then returns the snapshot \<open>c\<close> that has this
  count, and no other snapshot reaches the quorum. Otherwise it returns the zero value
  with the error \<open>errXLWriteQuorum\<close>, the write quorum failure. For four peers,
  \<open>[A, B, A, A]\<close> yields \<open>A\<close>, while \<open>[A, B, C, D]\<close> and \<open>[A, B, A, B]\<close> fail.
\<close>

theorem getValidServerConfig_quorum:
  assumes "length errs = length serverConfigs"
  shows "(length serverConfigs div 2 + 1 \<le> maxOccurrences serverConfigs errs \<longrightarrow>
            (\<exists>c. getValidServerConfig z serverConfigs errs = Return (c, None)
                \<and> occurrences serverConfigs errs c = maxOccurrences serverConfigs errs
                \<and> (\<forall>c'. c' \<noteq> c \<longrightarrow>
                      occurrences serverConfigs errs c' < length serverConfigs div 2 + 1)))
       \<and> (maxOccurrences serverConfigs errs < length serverConfigs div 2 + 1 \<longrightarrow>
            getValidServerConfig z serverConfigs errs = Return (z, Some errXLWriteQuorum))
       \<and> getValidServerConfig '''' [''A'', ''B'', ''A'', ''A''] [None, None, None, None]
            = Return (''A'', None)
       \<and> getValidServerConfig '''' [''A'', ''B'', ''C'', ''D''] [None, None, None, None]
            = Return ('''', Some errXLWriteQuorum)
       \<and> getValidServerConfig '''' [''A'', ''B'', ''A'', ''B''] [None, None, None, None]
            = Return ('''', Some errXLWriteQuorum)"
proof -
  obtain cc m c where r:
    "countConfigs serverConfigs errs = Some cc"
    "maxOccurring z serverConfigs cc = (m, c)" "m = maxOccurrences serverConfigs errs"
    "(m = 0 \<and> c = z) \<or>
     (\<exists>w<length serverConfigs. 0 < m \<and> anchor serverConfigs errs w
         \<and> occurrences serverConfigs errs (serverConfigs ! w) = m
         \<and> cc ! w = m \<and> c = serverConfigs ! w \<and> (\<forall>j<w. cc ! j < m))"
    by (rule counting_result[OF assms, of z])
  have res: "getValidServerConfig z serverConfigs errs =
      (if m < length serverConfigs div 2 + 1 then Return (z, Some errXLWriteQuorum)
       else Return (c, None))"
    using r(1,2) by (simp add: getValidServerConfig_def)
  have succ: "\<exists>c. getValidServerConfig z serverConfigs errs = Return (c, None)
                \<and> occurrences serverConfigs errs c = maxOccurrences serverConfigs errs
                \<and> (\<forall>c'. c' \<noteq> c \<longrightarrow>
                      occurrences serverConfigs errs c' < length serverConfigs div 2 + 1)"
    if q: "length serverConfigs div 2 + 1 \<le> maxOccurrences serverConfigs errs"
  proof -
    from q r(3) have "0 < m" by simp
    with r(4) have occ: "occurrences serverConfigs errs c = m" by auto
    from q r(3) res have "getValidServerConfig z serverConfigs errs = Return (c, None)" by simp
    moreover have "\<forall>c'. c' \<noteq> c \<longrightarrow>
           occurrences serverConfigs errs c' < length serverConfigs div 2 + 1"
      using occurrences_majority_unique[of serverConfigs errs c] occ q r(3) by simp
    ultimately show ?thesis using occ r(3) by blast
  qed
  have fail: "getValidServerConfig z serverConfigs errs = Return (z, Some errXLWriteQuorum)"
    if "maxOccurrences serverConfigs errs < length serverConfigs div 2 + 1"
    using that r(3) res by simp
  from succ fail getValidServerConfig_examples show ?thesis by blast
qed

theorem getValidServerConfig_quorum_witness:
  "length [None, None, None, None :: error option] = length [1, 2, 1, 1 :: nat]
   \<and> length [1, 2, 1, 1 :: nat] div 2 + 1 \<le> maxOccurrences [1, 2, 1, 1 :: nat] [None, None, None, None]
   \<and> (\<exists>c. getValidServerConfig 0 [1, 2, 1, 1 :: nat] [None, None, None, None] = Return (c, None)
          \<and> occurrences [1, 2, 1, 1 :: nat] [None, None, None, None] c = 3)
   \<and> maxOccurrences [1, 2, 1, 2 :: nat] [None, None, None, None] < length [1, 2, 1, 2 :: nat] div 2 + 1
   \<and> getValidServerConfig 0 [1, 2, 1, 2 :: nat] [None, None, None, None]
        = Return (0, Some errXLWriteQuorum)"
proof -
  have h: "length [None, None, None, None :: error option] = length [1, 2, 1, 1 :: nat]" by simp
  have h': "length [None, None, None, None :: error option] = length [1, 2, 1, 2 :: nat]" by simp
  have m: "maxOccurrences [1, 2, 1, 1 :: nat] [None, None, None, None] = 3" by code_simp
  have m': "maxOccurrences [1, 2, 1, 2 :: nat] [None, None, None, None] = 2" by code_simp
  show ?thesis
    using getValidServerConfig_quorum[OF h, of 0] getValidServerConfig_quorum[OF h', of 0] m m'
    by auto
qed

lemma counting_examples:
  "countConfigs [''A'', ''B'', ''A'', ''B''] [None, None, None, None] = Some [2, 2, 0, 0]"
  "maxOccurring '''' [''A'', ''B'', ''A'', ''B''] [2, 2, 0, 0] = (2, ''A'')"
  "countConfigs [''A'', ''B'', ''A'', ''A''] [None, None, None, None] = Some [3, 1, 0, 0]"
  "countConfigs [''A'', ''A'', ''B'', ''A''] [Some (rpcError ''down''), None, None, None]
     = Some [0, 2, 1, 0]"
  by code_simp+

text \<open>
  Claim C4. After the counting loop, the counter at index \<open>j\<close> is the occurrence count
  of the snapshot at \<open>j\<close> when \<open>j\<close> is an anchor (the lowest index of an error-free peer
  holding that snapshot) and \<open>0\<close> otherwise, and every error-free peer has an anchor at
  or before its index holding an equal snapshot. The second loop leaves in
  \<open>(maxOccurrence, configJSON)\<close> the count and the snapshot of an anchor \<open>w\<close> whose count
  is maximal and strictly larger than every counter before \<open>w\<close>: of two groups with
  equal maximal counts the one with the lower anchor is selected, by the scan alone.
  For \<open>[A, B, A, B]\<close> the counters are \<open>[2, 2, 0, 0]\<close> and the selection is \<open>A\<close>; for
  \<open>[A, A, B, A]\<close> with a failed first peer the counters are \<open>[0, 2, 1, 0]\<close>.
\<close>

theorem config_groups_anchor_and_tiebreak:
  assumes "length errs = length serverConfigs"
  shows "(\<exists>configCounter maxOccurrence configJSON.
      countConfigs serverConfigs errs = Some configCounter \<and>
      maxOccurring z serverConfigs configCounter = (maxOccurrence, configJSON) \<and>
      length configCounter = length serverConfigs \<and>
      (\<forall>j<length serverConfigs. configCounter ! j =
          (if anchor serverConfigs errs j
           then occurrences serverConfigs errs (serverConfigs ! j) else 0)) \<and>
      (\<forall>i<length serverConfigs. errs ! i = None \<longrightarrow>
          (\<exists>a\<le>i. anchor serverConfigs errs a \<and> serverConfigs ! a = serverConfigs ! i)) \<and>
      (\<forall>j<length serverConfigs. configCounter ! j \<le> maxOccurrence) \<and>
      ((\<exists>i<length serverConfigs. errs ! i = None) \<longrightarrow>
          (\<exists>w<length serverConfigs. anchor serverConfigs errs w \<and>
              configCounter ! w = maxOccurrence \<and> configJSON = serverConfigs ! w \<and>
              (\<forall>j<w. configCounter ! j < maxOccurrence))))
    \<and> countConfigs [''A'', ''B'', ''A'', ''B''] [None, None, None, None] = Some [2, 2, 0, 0]
    \<and> maxOccurring '''' [''A'', ''B'', ''A'', ''B''] [2, 2, 0, 0] = (2, ''A'')
    \<and> countConfigs [''A'', ''A'', ''B'', ''A''] [Some (rpcError ''down''), None, None, None]
          = Some [0, 2, 1, 0]"
proof -
  obtain cc m c where r:
    "countConfigs serverConfigs errs = Some cc"
    "counterInv serverConfigs errs (length serverConfigs) cc"
    "maxOccurring z serverConfigs cc = (m, c)"
    "\<forall>j<length serverConfigs. cc ! j \<le> m"
    "(m = 0 \<and> c = z) \<or>
     (\<exists>w<length serverConfigs. 0 < m \<and> anchor serverConfigs errs w
         \<and> occurrences serverConfigs errs (serverConfigs ! w) = m
         \<and> cc ! w = m \<and> c = serverConfigs ! w \<and> (\<forall>j<w. cc ! j < m))"
    by (rule counting_result[OF assms, of z])
  have len: "length cc = length serverConfigs" using r(2) by (simp add: counterInv_def)
  have cnt: "\<forall>j<length serverConfigs. cc ! j =
          (if anchor serverConfigs errs j
           then occurrences serverConfigs errs (serverConfigs ! j) else 0)"
    using counterInv_final[OF r(2)] by blast
  have anc: "\<forall>i<length serverConfigs. errs ! i = None \<longrightarrow>
          (\<exists>a\<le>i. anchor serverConfigs errs a \<and> serverConfigs ! a = serverConfigs ! i)"
    using anchor_exists by blast
  have win: "\<exists>w<length serverConfigs. anchor serverConfigs errs w \<and>
              cc ! w = m \<and> c = serverConfigs ! w \<and> (\<forall>j<w. cc ! j < m)"
    if "\<exists>i<length serverConfigs. errs ! i = None"
  proof -
    from that obtain i where i: "i < length serverConfigs" "errs ! i = None" by blast
    from anchor_exists[OF i(2)] obtain a where
      a: "a \<le> i" "anchor serverConfigs errs a" by blast
    with i have al: "a < length serverConfigs" by simp
    from counterInv_nonzero[OF r(2) al] a al have "cc ! a \<noteq> 0" by simp
    with r(4) al have "0 < m" by (metis gr0I le_zero_eq)
    with r(5) show ?thesis by auto
  qed
  from r(1,3) len cnt anc r(4) win counting_examples(1,2,4) show ?thesis by blast
qed

theorem config_groups_anchor_and_tiebreak_witness:
  "length [None, None, None, None :: error option] = length [1, 2, 1, 2 :: nat]
   \<and> (\<exists>i<length [1, 2, 1, 2 :: nat]. [None, None, None, None :: error option] ! i = None)
   \<and> anchor [1, 2, 1, 2 :: nat] [None, None, None, None] 0
   \<and> anchor [1, 2, 1, 2 :: nat] [None, None, None, None] 1
   \<and> (\<exists>configCounter maxOccurrence configJSON.
        countConfigs [1, 2, 1, 2 :: nat] [None, None, None, None] = Some configCounter \<and>
        maxOccurring 0 [1, 2, 1, 2 :: nat] configCounter = (maxOccurrence, configJSON) \<and>
        configCounter ! 0 = occurrences [1, 2, 1, 2 :: nat] [None, None, None, None] 1 \<and>
        configCounter ! 1 = occurrences [1, 2, 1, 2 :: nat] [None, None, None, None] 2)"
proof -
  have h: "length [None, None, None, None :: error option] = length [1, 2, 1, 2 :: nat]" by simp
  have e: "\<exists>i<length [1, 2, 1, 2 :: nat]. [None, None, None, None :: error option] ! i = None"
    by (rule exI[of _ 0]) simp
  have a0: "anchor [1, 2, 1, 2 :: nat] [None, None, None, None] 0" by (simp add: anchor_def)
  have a1: "anchor [1, 2, 1, 2 :: nat] [None, None, None, None] 1" by (simp add: anchor_def)
  from config_groups_anchor_and_tiebreak[OF h, of 0] obtain cc m c where
     r: "countConfigs [1, 2, 1, 2 :: nat] [None, None, None, None] = Some cc"
        "maxOccurring 0 [1, 2, 1, 2 :: nat] cc = (m, c)"
        "\<forall>j<length [1, 2, 1, 2 :: nat]. cc ! j =
          (if anchor [1, 2, 1, 2 :: nat] [None, None, None, None] j
           then occurrences [1, 2, 1, 2 :: nat] [None, None, None, None] ([1, 2, 1, 2 :: nat] ! j) else 0)"
    by blast
  from r(3) a0 have c0: "cc ! 0 = occurrences [1, 2, 1, 2 :: nat] [None, None, None, None] 1"
    by simp
  from r(3) a1 have c1: "cc ! 1 = occurrences [1, 2, 1, 2 :: nat] [None, None, None, None] 2"
    by simp
  from h e a0 a1 r(1,2) c0 c1 show ?thesis by blast
qed

section \<open>Properties of getPeerUptimes and reInitPeerDisks\<close>

lemma scanUptimes_result:
  "scanUptimes q us (vc, lu) =
     (let vs = map uptime (filter (\<lambda>u. err u = None) us); k = max 1 (q - vc)
      in if k \<le> length vs then (vc + k, vs ! (k - 1)) else (vc + length vs, lu))"
proof (induction us arbitrary: vc lu)
  case Nil
  then show ?case by (simp add: Let_def)
next
  case (Cons u us)
  define vs where "vs = map uptime (filter (\<lambda>u. err u = None) us)"
  note IH = Cons.IH[unfolded Let_def, folded vs_def]
  show ?case
  proof (cases "err u = None")
    case False
    then have f: "map uptime (filter (\<lambda>u. err u = None) (u # us)) = vs"
      by (simp add: vs_def)
    from False have "scanUptimes q (u # us) (vc, lu) = scanUptimes q us (vc, lu)"
      by simp
    then show ?thesis unfolding Let_def f by (simp only: IH)
  next
    case True
    then have f: "map uptime (filter (\<lambda>u. err u = None) (u # us)) = uptime u # vs"
      by (simp add: vs_def)
    show ?thesis
    proof (cases "q \<le> vc + 1")
      case q: True
      then have k: "max 1 (q - vc) = 1" by simp
      from True q have "scanUptimes q (u # us) (vc, lu) = (vc + 1, uptime u)" by simp
      then show ?thesis unfolding Let_def f k by simp
    next
      case q: False
      then have k: "max 1 (q - vc) = Suc (q - (vc + 1))" "max 1 (q - (vc + 1)) = q - (vc + 1)"
        by simp_all
      from True q have "scanUptimes q (u # us) (vc, lu) = scanUptimes q us (vc + 1, lu)"
        by simp
      also have "\<dots> = (if q - (vc + 1) \<le> length vs
                        then (vc + 1 + (q - (vc + 1)), vs ! (q - (vc + 1) - 1))
                        else (vc + 1 + length vs, lu))"
        using IH[of "vc + 1" lu] unfolding k by simp
      finally show ?thesis unfolding Let_def f k using q by (auto simp: nth_Cons')
    qed
  qed
qed

lemma sorted_valid:
  assumes p: "mset ys = mset xs" and s: "sorted (map uptime ys)"
  shows "map uptime (filter (\<lambda>u. err u = None) ys) = sort (map uptime (filter (\<lambda>u. err u = None) xs))"
proof -
  have "mset (map uptime (filter (\<lambda>u. err u = None) ys)) = mset (map uptime (filter (\<lambda>u. err u = None) xs))"
    using p by simp
  moreover have "sorted (map uptime (filter (\<lambda>u. err u = None) ys))"
    using s by (rule sorted_filter)
  ultimately show ?thesis by (metis properties_for_sort)
qed

lemma gathered_valid:
  "map uptime (filter (\<lambda>u. err u = None)
      (map (\<lambda>peer. case Uptime w (cmdRunner peer) of (d, e) \<Rightarrow> \<lparr> err = e, uptime = d \<rparr>) peers))
   = validUptimes w peers"
  unfolding validUptimes_def
  by (induction peers) (auto split: prod.splits)

lemma getPeerUptimes_dist:
  assumes dist: "globalIsDistXL w"
    and perm: "\<forall>xs. mset (sortSort xs) = mset xs"
    and srt: "\<forall>xs. sorted (map uptime (sortSort xs))"
  shows "getPeerUptimes sortSort w peers =
     (if length (validUptimes w peers) < length peers div 2 then (0, Some InsufficientReadQuorum)
      else if validUptimes w peers = [] then (0, None)
      else (sort (validUptimes w peers) ! (length peers div 2 - 1), None))"
proof -
  define us where "us = map (\<lambda>peer. case Uptime w (cmdRunner peer) of
                                      (d, e) \<Rightarrow> \<lparr> err = e, uptime = d \<rparr>) peers"
  define vs where "vs = map uptime (filter (\<lambda>u. err u = None) (sortSort us))"
  have len: "length (sortSort us) = length peers"
    using perm by (metis us_def length_map size_mset)
  have vs: "vs = sort (validUptimes w peers)"
    unfolding vs_def using sorted_valid[of "sortSort us" us] perm srt
    by (simp add: us_def gathered_valid)
  then have lvs: "length vs = length (validUptimes w peers)" by simp
  have sc: "scanUptimes (length peers div 2) (sortSort us) (0, 0) =
      (if max 1 (length peers div 2) \<le> length vs
       then (max 1 (length peers div 2), vs ! (max 1 (length peers div 2) - 1))
       else (length vs, 0))"
    by (simp add: scanUptimes_result Let_def vs_def)
  have res: "getPeerUptimes sortSort w peers =
      (case scanUptimes (length peers div 2) (sortSort us) (0, 0) of
         (validCount, latestUptime) \<Rightarrow>
            if validCount < length peers div 2 then (0, Some InsufficientReadQuorum)
            else (latestUptime, None))"
    using dist unfolding us_def by (simp add: getPeerUptimes_def Let_def len[unfolded us_def])
  show ?thesis
  proof (cases "max 1 (length peers div 2) \<le> length vs")
    case True
    then have ne: "vs \<noteq> []" by auto
    then have ne': "validUptimes w peers \<noteq> []" using vs by auto
    have "max 1 (length peers div 2) - 1 = length peers div 2 - 1" by simp
    with True ne' show ?thesis
      unfolding res sc using vs lvs by auto
  next
    case False
    then show ?thesis
      unfolding res sc using vs lvs
      by (cases "length peers div 2 = 0") (auto simp: not_le)
  qed
qed


lemma getPeerUptimes_examples:
  "getPeerUptimes (sort_key uptime) clusterEnv clusterPeers = (20 * minute, None)"
  "validUptimes clusterEnv clusterPeers
     = [10 * minute, 50 * minute, 20 * minute, 40 * minute, 30 * minute]"
  "length clusterPeers = 5"
  by code_simp+

text \<open>
  Claim C2. In a distributed deployment, with a sorting routine that permutes the
  entries into ascending order of uptime, \<^verbatim>\<open>getPeerUptimes\<close> fails with
  \<open>InsufficientReadQuorum\<close> exactly when fewer than \<open>N div 2\<close> peers report an uptime
  without error; and when the read quorum \<open>N div 2\<close> is positive and reached, the result
  is the \<open>N div 2\<close>-th smallest of the uptimes reported without error. Five peers
  reporting 10, 50, 20, 40 and 30 minutes yield 20 minutes.
\<close>

theorem getPeerUptimes_quorum:
  assumes "globalIsDistXL w"
    and "\<forall>xs. mset (sortSort xs) = mset xs"
    and "\<forall>xs. sorted (map uptime (sortSort xs))"
  shows "(length (validUptimes w peers) < length peers div 2 \<longrightarrow>
            getPeerUptimes sortSort w peers = (0, Some InsufficientReadQuorum))
       \<and> (length peers div 2 \<le> length (validUptimes w peers) \<longrightarrow>
            snd (getPeerUptimes sortSort w peers) = None)
       \<and> (0 < length peers div 2 \<and> length peers div 2 \<le> length (validUptimes w peers) \<longrightarrow>
            getPeerUptimes sortSort w peers
              = (sort (validUptimes w peers) ! (length peers div 2 - 1), None))
       \<and> validUptimes clusterEnv clusterPeers
            = [10 * minute, 50 * minute, 20 * minute, 40 * minute, 30 * minute]
       \<and> getPeerUptimes (sort_key uptime) clusterEnv clusterPeers = (20 * minute, None)"
proof -
  note r = getPeerUptimes_dist[OF assms, of peers]
  have a: "length (validUptimes w peers) < length peers div 2 \<longrightarrow>
            getPeerUptimes sortSort w peers = (0, Some InsufficientReadQuorum)"
    using r by simp
  have b: "length peers div 2 \<le> length (validUptimes w peers) \<longrightarrow>
            snd (getPeerUptimes sortSort w peers) = None"
    using r by simp
  have c: "0 < length peers div 2 \<and> length peers div 2 \<le> length (validUptimes w peers) \<longrightarrow>
            getPeerUptimes sortSort w peers
              = (sort (validUptimes w peers) ! (length peers div 2 - 1), None)"
    using r by auto
  from a b c getPeerUptimes_examples(1,2) show ?thesis by blast
qed

theorem getPeerUptimes_quorum_witness:
  "globalIsDistXL clusterEnv
   \<and> (\<forall>xs. mset (sort_key uptime xs) = mset xs)
   \<and> (\<forall>xs. sorted (map uptime (sort_key uptime xs)))
   \<and> 0 < length clusterPeers div 2
   \<and> length clusterPeers div 2 \<le> length (validUptimes clusterEnv clusterPeers)
   \<and> getPeerUptimes (sort_key uptime) clusterEnv clusterPeers
        = (sort (validUptimes clusterEnv clusterPeers) ! (length clusterPeers div 2 - 1), None)
   \<and> length (validUptimes (clusterEnv\<lparr> callUptime := (\<lambda>rc. (Some (rpcError ''timeout''), 0)) \<rparr>)
                clusterPeers) < length clusterPeers div 2
   \<and> getPeerUptimes (sort_key uptime)
        (clusterEnv\<lparr> callUptime := (\<lambda>rc. (Some (rpcError ''timeout''), 0)) \<rparr>) clusterPeers
        = (0, Some InsufficientReadQuorum)"
proof -
  let ?w = "clusterEnv\<lparr> callUptime := (\<lambda>rc. (Some (rpcError ''timeout''), 0)) \<rparr>"
  have d: "globalIsDistXL clusterEnv" "globalIsDistXL ?w" by (simp_all add: clusterEnv_def)
  have p: "\<forall>xs. mset (sort_key uptime xs) = mset xs" by simp
  have s: "\<forall>xs. sorted (map uptime (sort_key uptime xs))" by simp
  have l: "length clusterPeers div 2 = 2" by code_simp
  have v: "length (validUptimes clusterEnv clusterPeers) = 5" by code_simp
  have v': "length (validUptimes ?w clusterPeers) = 1" by code_simp
  show ?thesis
    using getPeerUptimes_quorum[OF d(1) p s, of clusterPeers]
      getPeerUptimes_quorum[OF d(2) p s, of clusterPeers] d p s l v v'
    by simp
qed

text \<open>
  Claim C9. Outside a distributed deployment \<^verbatim>\<open>getPeerUptimes\<close> returns the difference
  of the clock and \<^verbatim>\<open>globalBootTime\<close> with no error, for every list of peers and whether
  or not a boot time was recorded; with no boot time recorded the local runner's
  \<^verbatim>\<open>Uptime\<close> returns \<open>errServerNotInitialized\<close>, and the aggregate still returns no error.
\<close>

theorem getPeerUptimes_single_node:
  assumes "\<not> globalIsDistXL w"
  shows "getPeerUptimes sortSort w peers = (time_Sub (timeNow w) (globalBootTime w), None)
       \<and> (time_IsZero (globalBootTime w) \<longrightarrow>
            Uptime w localAdminClient = (0, Some errServerNotInitialized)
            \<and> getPeerUptimes sortSort w peers = (time_Sub (timeNow w) 0, None))"
  using assms by (simp add: getPeerUptimes_def time_IsZero_def)

theorem getPeerUptimes_single_node_witness:
  "\<not> globalIsDistXL (clusterEnv\<lparr> globalIsDistXL := False, globalBootTime := 0 \<rparr>)
   \<and> time_IsZero (globalBootTime (clusterEnv\<lparr> globalIsDistXL := False, globalBootTime := 0 \<rparr>))
   \<and> Uptime (clusterEnv\<lparr> globalIsDistXL := False, globalBootTime := 0 \<rparr>) localAdminClient
        = (0, Some errServerNotInitialized)
   \<and> getPeerUptimes (sort_key uptime) (clusterEnv\<lparr> globalIsDistXL := False, globalBootTime := 0 \<rparr>)
        [\<lparr> addr = ''node1:9000'', cmdRunner = localAdminClient \<rparr>] = (1010 * minute, None)"
proof -
  let ?w = "clusterEnv\<lparr> globalIsDistXL := False, globalBootTime := 0 \<rparr>"
  have d: "\<not> globalIsDistXL ?w" by simp
  have z: "time_IsZero (globalBootTime ?w)" by (simp add: time_IsZero_def)
  have t: "time_Sub (timeNow ?w) 0 = 1010 * minute"
    by (simp add: clusterEnv_def time_Sub_def minute_def maxDuration_def minDuration_def)
  show ?thesis
    using getPeerUptimes_single_node[OF d, of "sort_key uptime"
        "[\<lparr> addr = ''node1:9000'', cmdRunner = localAdminClient \<rparr>]"] d z t
    by simp
qed

lemma reInitPeerDisks_examples:
  "reInitPeerDisksErrs clusterEnv (tl clusterPeers)
     = replicate 4 (Some (rpcError ''connection refused''))"
  by code_simp

text \<open>
  Claim C6. \<^verbatim>\<open>reInitPeerDisks\<close> returns no error for every list of peers and every outcome
  of the calls; in the example cluster each of the four remote peers fails and the result
  is still no error.
\<close>

theorem reInitPeerDisks_always_succeeds:
  "reInitPeerDisks w peers = None
   \<and> reInitPeerDisksErrs clusterEnv (tl clusterPeers)
        = replicate 4 (Some (rpcError ''connection refused''))
   \<and> reInitPeerDisks clusterEnv (tl clusterPeers) = None"
  using reInitPeerDisks_examples by (simp add: reInitPeerDisks_def)

section \<open>Properties of makeAdminPeers\<close>

lemma remdups_snoc:
  "remdups (xs @ [h]) = filter (\<lambda>x. x \<noteq> h) (remdups xs) @ [h]"
  by (induction xs) auto

lemma firstAppearances_Cons:
  "firstAppearances (h # hs) = h # firstAppearances (filter (\<lambda>x. x \<noteq> h) hs)"
proof -
  have "remdups (rev hs @ [h]) = remdups (rev (filter (\<lambda>x. x \<noteq> h) hs)) @ [h]"
    by (simp add: remdups_snoc rev_filter remdups_filter)
  then show ?thesis by (simp add: firstAppearances_def)
qed

lemma firstAppearances_Nil: "firstAppearances [] = []"
  by (simp add: firstAppearances_def)

lemma set_firstAppearances: "set (firstAppearances hs) = set hs"
  by (simp add: firstAppearances_def)

lemma distinct_firstAppearances: "distinct (firstAppearances hs)"
  by (simp add: firstAppearances_def)

lemma makeAdminPeersLoop_result:
  assumes "\<forall>a. seenAddr a \<longleftrightarrow> a \<in> set (map addr servicePeers)"
  shows "fst (makeAdminPeersLoop g eps (servicePeers, seenAddr)) =
           servicePeers @
           map (\<lambda>a. \<lparr> addr = a, cmdRunner = remoteRunner g a \<rparr>)
             (firstAppearances
                (filter (\<lambda>h. h \<noteq> [] \<and> h \<notin> set (map addr servicePeers)) (map Host eps)))"
  using assms
proof (induction eps arbitrary: servicePeers seenAddr)
  case Nil
  then show ?case by (simp add: firstAppearances_Nil)
next
  case (Cons ep eps)
  show ?case
  proof (cases "Host ep = [] \<or> seenAddr (Host ep)")
    case True
    then have skip: "makeAdminPeersLoop g (ep # eps) (servicePeers, seenAddr)
                 = makeAdminPeersLoop g eps (servicePeers, seenAddr)" by auto
    from True Cons.prems have
      "filter (\<lambda>h. h \<noteq> [] \<and> h \<notin> set (map addr servicePeers)) (map Host (ep # eps))
       = filter (\<lambda>h. h \<noteq> [] \<and> h \<notin> set (map addr servicePeers)) (map Host eps)"
      by auto
    with skip Cons.IH[OF Cons.prems] show ?thesis by simp
  next
    case False
    define p where "p = \<lparr> addr = Host ep, cmdRunner = remoteRunner g (Host ep) \<rparr>"
    from False have step: "makeAdminPeersLoop g (ep # eps) (servicePeers, seenAddr)
        = makeAdminPeersLoop g eps (servicePeers @ [p], seenAddr(Host ep := True))"
      by (simp add: p_def remoteRunner_def Let_def)
    have inv: "\<forall>a. (seenAddr(Host ep := True)) a \<longleftrightarrow> a \<in> set (map addr (servicePeers @ [p]))"
      using Cons.prems by (auto simp: p_def)
    have new: "Host ep \<noteq> [] \<and> Host ep \<notin> set (map addr servicePeers)"
      using False Cons.prems by auto
    have flt: "filter (\<lambda>x. x \<noteq> Host ep)
                 (filter (\<lambda>h. h \<noteq> [] \<and> h \<notin> set (map addr servicePeers)) (map Host eps))
        = filter (\<lambda>h. h \<noteq> [] \<and> h \<notin> set (map addr (servicePeers @ [p]))) (map Host eps)"
      by (auto simp: p_def intro: filter_cong)
    have hd: "filter (\<lambda>h. h \<noteq> [] \<and> h \<notin> set (map addr servicePeers)) (map Host (ep # eps))
        = Host ep # filter (\<lambda>h. h \<noteq> [] \<and> h \<notin> set (map addr servicePeers)) (map Host eps)"
      using new by simp
    have fa: "firstAppearances
            (filter (\<lambda>h. h \<noteq> [] \<and> h \<notin> set (map addr servicePeers)) (map Host (ep # eps)))
        = Host ep # firstAppearances
            (filter (\<lambda>h. h \<noteq> [] \<and> h \<notin> set (map addr (servicePeers @ [p]))) (map Host eps))"
      by (simp only: hd firstAppearances_Cons flt)
    let ?mk = "\<lambda>a. \<lparr> addr = a, cmdRunner = remoteRunner g a \<rparr>"
    let ?rest = "firstAppearances
            (filter (\<lambda>h. h \<noteq> [] \<and> h \<notin> set (map addr (servicePeers @ [p]))) (map Host eps))"
    have "fst (makeAdminPeersLoop g (ep # eps) (servicePeers, seenAddr))
        = fst (makeAdminPeersLoop g eps (servicePeers @ [p], seenAddr(Host ep := True)))"
      by (simp only: step)
    also have "\<dots> = (servicePeers @ [p]) @ map ?mk ?rest"
      by (rule Cons.IH[OF inv])
    also have "\<dots> = servicePeers @ map ?mk (Host ep # ?rest)"
      by (simp add: p_def)
    also have "\<dots> = servicePeers @ map ?mk (firstAppearances
            (filter (\<lambda>h. h \<noteq> [] \<and> h \<notin> set (map addr servicePeers)) (map Host (ep # eps))))"
      by (simp only: fa)
    finally show ?thesis .
  qed
qed

lemma makeAdminPeers_eq:
  "makeAdminPeers g eps =
     \<lparr> addr = globalMinioAddr g, cmdRunner = localAdminClient \<rparr> #
     map (\<lambda>a. \<lparr> addr = a, cmdRunner = remoteRunner g a \<rparr>)
       (firstAppearances (filter (\<lambda>h. h \<noteq> [] \<and> h \<noteq> globalMinioAddr g) (map Host eps)))"
  unfolding makeAdminPeers_def
  by (subst makeAdminPeersLoop_result) simp_all

lemma makeAdminPeers_examples:
  "map addr (makeAdminPeers clusterGlobals clusterEndpoints)
     = [''node1:9000'', ''node2:9000'', ''node3:9000'', ''node4:9000'', ''node5:9000'']"
  by code_simp

text \<open>
  Claim C8. For every list of endpoints, the list built by \<^verbatim>\<open>makeAdminPeers\<close> starts with
  the local peer (the local address, the local runner); the addresses of its peers are
  pairwise distinct; the addresses after the first are the hosts of the endpoints that
  are neither empty nor the local address, each once, in the order of their first
  appearance; and each of these peers has the remote runner for its address. The
  function has no error result.
\<close>

theorem makeAdminPeers_directory:
  "makeAdminPeers g eps \<noteq> []
   \<and> makeAdminPeers g eps ! 0 = \<lparr> addr = globalMinioAddr g, cmdRunner = localAdminClient \<rparr>
   \<and> distinct (map addr (makeAdminPeers g eps))
   \<and> map addr (tl (makeAdminPeers g eps))
       = firstAppearances (filter (\<lambda>h. h \<noteq> [] \<and> h \<noteq> globalMinioAddr g) (map Host eps))
   \<and> map cmdRunner (tl (makeAdminPeers g eps))
       = map (remoteRunner g) (map addr (tl (makeAdminPeers g eps)))
   \<and> map addr (makeAdminPeers clusterGlobals clusterEndpoints)
       = [''node1:9000'', ''node2:9000'', ''node3:9000'', ''node4:9000'', ''node5:9000'']"
proof -
  let ?hs = "firstAppearances (filter (\<lambda>h. h \<noteq> [] \<and> h \<noteq> globalMinioAddr g) (map Host eps))"
  note eq = makeAdminPeers_eq[of g eps]
  have a: "map addr (makeAdminPeers g eps) = globalMinioAddr g # ?hs"
    unfolding eq by (simp add: comp_def)
  have "globalMinioAddr g \<notin> set ?hs" by (simp add: set_firstAppearances)
  then have d: "distinct (map addr (makeAdminPeers g eps))"
    unfolding a by (simp add: distinct_firstAppearances)
  have t: "map addr (tl (makeAdminPeers g eps)) = ?hs"
    unfolding eq by (simp add: comp_def)
  have r: "map cmdRunner (tl (makeAdminPeers g eps))
       = map (remoteRunner g) (map addr (tl (makeAdminPeers g eps)))"
    unfolding eq by (simp add: comp_def)
  have n: "makeAdminPeers g eps \<noteq> []" unfolding eq by simp
  have h: "makeAdminPeers g eps ! 0 = \<lparr> addr = globalMinioAddr g, cmdRunner = localAdminClient \<rparr>"
    unfolding eq by simp
  from n h d t r makeAdminPeers_examples show ?thesis by blast
qed

section \<open>Properties of getPeerConfig\<close>

lemma unmarshalConfigs_decode_error:
  assumes "i < length rs" "rs ! i = (b, None)" "jsonUnmarshal w b = Inl e"
    and "\<forall>j<i. snd (rs ! j) = None \<longrightarrow> (\<exists>c. jsonUnmarshal w (fst (rs ! j)) = Inr c)"
  shows "unmarshalConfigs w z rs = Inl e"
  using assms
proof (induction rs arbitrary: i)
  case Nil
  then show ?case by simp
next
  case (Cons r rs)
  obtain b0 e0 where r: "r = (b0, e0)" by (cases r)
  show ?case
  proof (cases i)
    case 0
    with Cons.prems r show ?thesis by simp
  next
    case (Suc i')
    have rest: "unmarshalConfigs w z rs = Inl e"
    proof (rule Cons.IH[of i'])
      show "i' < length rs" using Cons.prems(1) Suc by simp
      show "rs ! i' = (b, None)" using Cons.prems(2) Suc by simp
      show "jsonUnmarshal w b = Inl e" by (rule Cons.prems(3))
      show "\<forall>j<i'. snd (rs ! j) = None \<longrightarrow> (\<exists>c. jsonUnmarshal w (fst (rs ! j)) = Inr c)"
      proof (intro allI impI)
        fix j assume "j < i'" "snd (rs ! j) = None"
        with Cons.prems(4)[rule_format, of "Suc j"] Suc
        show "\<exists>c. jsonUnmarshal w (fst (rs ! j)) = Inr c" by simp
      qed
    qed
    show ?thesis
    proof (cases "e0 = None")
      case True
      with Cons.prems(4)[rule_format, of 0] Suc r
      obtain c where "jsonUnmarshal w b0 = Inr c" by auto
      with True r rest show ?thesis by simp
    next
      case False
      with r rest show ?thesis by simp
    qed
  qed
qed

lemma unmarshalConfigs_length:
  "unmarshalConfigs w z rs = Inr serverConfigs \<Longrightarrow> length serverConfigs = length rs"
  by (induction rs arbitrary: serverConfigs)
     (auto split: if_splits sum.splits)

lemma getPeerConfig_first_decode_error:
  assumes dist: "globalIsDistXL w" and i: "i < length peers"
    and ok: "GetConfig w (cmdRunner (peers ! i)) = (b, None)"
    and bad: "jsonUnmarshal w b = Inl e"
    and first: "\<forall>j<i. snd (GetConfig w (cmdRunner (peers ! j))) = None \<longrightarrow>
              (\<exists>c. jsonUnmarshal w (fst (GetConfig w (cmdRunner (peers ! j)))) = Inr c)"
  shows "getPeerConfig z w peers = Return ([], Some e)"
proof -
  have "unmarshalConfigs w z (map (\<lambda>peer. GetConfig w (cmdRunner peer)) peers) = Inl e"
    by (rule unmarshalConfigs_decode_error[of i _ b]) (use i ok bad first in auto)
  with dist show ?thesis by (simp add: getPeerConfig_def Let_def)
qed

text \<open>In a distributed deployment \<^verbatim>\<open>getPeerConfig\<close> does not panic, also for no peers.\<close>

lemma getPeerConfig_dist_no_panic:
  assumes "globalIsDistXL w"
  shows "getPeerConfig z w peers \<noteq> Panic"
proof (cases "unmarshalConfigs w z (map (\<lambda>peer. GetConfig w (cmdRunner peer)) peers)")
  case (Inl decodeErr)
  with assms show ?thesis by (simp add: getPeerConfig_def Let_def)
next
  case (Inr serverConfigs)
  let ?errs = "map snd (map (\<lambda>peer. GetConfig w (cmdRunner peer)) peers)"
  have len: "length ?errs = length serverConfigs"
    using unmarshalConfigs_length[OF Inr] by simp
  obtain cc m c where r: "countConfigs serverConfigs ?errs = Some cc"
    "maxOccurring z serverConfigs cc = (m, c)"
    by (rule counting_result[OF len, of z])
  then have "getValidServerConfig z serverConfigs ?errs \<noteq> Panic"
    by (simp add: getValidServerConfig_def)
  with assms Inr show ?thesis
    by (auto simp: getPeerConfig_def Let_def split: outcome.splits prod.splits option.splits)
qed

text \<open>
  Claim C7. In a distributed deployment, when the payload of a peer whose \<^verbatim>\<open>GetConfig\<close>
  call returned no error does not decode, \<^verbatim>\<open>getPeerConfig\<close> returns a decode error of
  such a peer (of the first one in the order of the peers) and nothing else, whatever
  the other peers returned. In the example cluster four of five peers hold \<open>cfgA\<close>: when
  the call to \<open>node2\<close> fails the result is \<open>cfgA\<close>, when \<open>node2\<close> answers with a payload
  that does not decode the result is the decode error.
\<close>

theorem getPeerConfig_decode_error_aborts:
  assumes "globalIsDistXL w" and "i < length peers"
    and "gatherConfigs w peers ! i = (configBytes, None)"
    and "jsonUnmarshal w configBytes = Inl decodeErr"
  shows "(\<exists>k\<le>i. \<exists>b e. gatherConfigs w peers ! k = (b, None) \<and> jsonUnmarshal w b = Inl e
            \<and> getPeerConfig z w peers = Return ([], Some e))
       \<and> ((\<forall>j<i. snd (gatherConfigs w peers ! j) = None \<longrightarrow>
                (\<exists>c. jsonUnmarshal w (fst (gatherConfigs w peers ! j)) = Inr c)) \<longrightarrow>
            getPeerConfig z w peers = Return ([], Some decodeErr))
       \<and> getPeerConfig []
            (clusterEnv\<lparr> callGetConfig := (\<lambda>rc. if serverAddr rc = ''node2:9000''
                                               then (None, ''garbage'') else (None, ''cfgA'')) \<rparr>)
            clusterPeers = Return ([], Some (jsonError ''invalid character''))
       \<and> getPeerConfig []
            (clusterEnv\<lparr> callGetConfig := (\<lambda>rc. if serverAddr rc = ''node2:9000''
                                               then (Some (rpcError ''connection refused''), [])
                                               else (None, ''cfgA'')) \<rparr>)
            clusterPeers = Return (''cfgA'', None)"
proof -
  let ?g = "gatherConfigs w peers"
  have nth: "?g ! j = GetConfig w (cmdRunner (peers ! j))" if "j < length peers" for j
    using that by (simp add: gatherConfigs_def)
  define P where "P k \<longleftrightarrow> k < length peers \<and> snd (?g ! k) = None
                        \<and> (\<exists>e. jsonUnmarshal w (fst (?g ! k)) = Inl e)" for k
  have Pi: "P i" using assms by (simp add: P_def)
  define k where "k = (LEAST k. P k)"
  have Pk: "P k" unfolding k_def using Pi by (rule LeastI)
  have ki: "k \<le> i" unfolding k_def using Pi by (rule Least_le)
  have before: "\<not> P j" if "j < k" for j
    using that unfolding k_def by (rule not_less_Least)
  from Pk obtain b e where be: "?g ! k = (b, None)" "jsonUnmarshal w b = Inl e"
    by (cases "?g ! k") (auto simp: P_def)
  have klen: "k < length peers" using Pk by (simp add: P_def)
  have first: "\<forall>j<k. snd (GetConfig w (cmdRunner (peers ! j))) = None \<longrightarrow>
              (\<exists>c. jsonUnmarshal w (fst (GetConfig w (cmdRunner (peers ! j)))) = Inr c)"
  proof (intro allI impI)
    fix j assume j: "j < k" "snd (GetConfig w (cmdRunner (peers ! j))) = None"
    with klen have jl: "j < length peers" by simp
    from before[OF j(1)] j(2) jl have "\<nexists>e. jsonUnmarshal w (fst (?g ! j)) = Inl e"
      by (simp add: P_def nth)
    then show "\<exists>c. jsonUnmarshal w (fst (GetConfig w (cmdRunner (peers ! j)))) = Inr c"
      using nth[OF jl] by (cases "jsonUnmarshal w (fst (?g ! j))") auto
  qed
  have "getPeerConfig z w peers = Return ([], Some e)"
    by (rule getPeerConfig_first_decode_error[OF assms(1) klen _ be(2) first])
       (use be(1) nth[OF klen] in simp)
  with ki be have a: "\<exists>k\<le>i. \<exists>b e. ?g ! k = (b, None) \<and> jsonUnmarshal w b = Inl e
            \<and> getPeerConfig z w peers = Return ([], Some e)" by blast
  have b: "getPeerConfig z w peers = Return ([], Some decodeErr)"
    if h: "\<forall>j<i. snd (?g ! j) = None \<longrightarrow> (\<exists>c. jsonUnmarshal w (fst (?g ! j)) = Inr c)"
  proof (rule getPeerConfig_first_decode_error[OF assms(1,2) _ assms(4)])
    show "GetConfig w (cmdRunner (peers ! i)) = (configBytes, None)"
      using assms(2,3) nth by simp
    show "\<forall>j<i. snd (GetConfig w (cmdRunner (peers ! j))) = None \<longrightarrow>
              (\<exists>c. jsonUnmarshal w (fst (GetConfig w (cmdRunner (peers ! j)))) = Inr c)"
      using h assms(2) nth by (metis less_trans)
  qed
  have c: "getPeerConfig []
            (clusterEnv\<lparr> callGetConfig := (\<lambda>rc. if serverAddr rc = ''node2:9000''
                                               then (None, ''garbage'') else (None, ''cfgA'')) \<rparr>)
            clusterPeers = Return ([], Some (jsonError ''invalid character''))"
    by code_simp
  have d: "getPeerConfig []
            (clusterEnv\<lparr> callGetConfig := (\<lambda>rc. if serverAddr rc = ''node2:9000''
                                               then (Some (rpcError ''connection refused''), [])
                                               else (None, ''cfgA'')) \<rparr>)
            clusterPeers = Return (''cfgA'', None)"
    by code_simp
  from a b c d show ?thesis by blast
qed

theorem getPeerConfig_decode_error_aborts_witness:
  "globalIsDistXL (clusterEnv\<lparr> callGetConfig := (\<lambda>rc. if serverAddr rc = ''node2:9000''
                                               then (None, ''garbage'') else (None, ''cfgA'')) \<rparr>)
   \<and> 1 < length clusterPeers
   \<and> gatherConfigs (clusterEnv\<lparr> callGetConfig := (\<lambda>rc. if serverAddr rc = ''node2:9000''
                                               then (None, ''garbage'') else (None, ''cfgA'')) \<rparr>)
        clusterPeers ! 1 = (''garbage'', None)
   \<and> jsonUnmarshal (clusterEnv\<lparr> callGetConfig := (\<lambda>rc. if serverAddr rc = ''node2:9000''
                                               then (None, ''garbage'') else (None, ''cfgA'')) \<rparr>)
        ''garbage'' = Inl (jsonError ''invalid character'')
   \<and> gatherConfigs (clusterEnv\<lparr> callGetConfig := (\<lambda>rc. if serverAddr rc = ''node2:9000''
                                               then (None, ''garbage'') else (None, ''cfgA'')) \<rparr>)
        clusterPeers ! 0 = (''cfgA'', None)
   \<and> jsonUnmarshal (clusterEnv\<lparr> callGetConfig := (\<lambda>rc. if serverAddr rc = ''node2:9000''
                                               then (None, ''garbage'') else (None, ''cfgA'')) \<rparr>)
        ''cfgA'' = Inr ''cfgA''
   \<and> getPeerConfig ''zero''
        (clusterEnv\<lparr> callGetConfig := (\<lambda>rc. if serverAddr rc = ''node2:9000''
                                               then (None, ''garbage'') else (None, ''cfgA'')) \<rparr>)
        clusterPeers = Return ([], Some (jsonError ''invalid character''))"
proof -
  let ?w = "clusterEnv\<lparr> callGetConfig := (\<lambda>rc. if serverAddr rc = ''node2:9000''
                                               then (None, ''garbage'') else (None, ''cfgA'')) \<rparr>"
  have d: "globalIsDistXL ?w" by (simp add: clusterEnv_def)
  have l: "1 < length clusterPeers" by code_simp
  have g1: "gatherConfigs ?w clusterPeers ! 1 = (''garbage'', None)" by code_simp
  have g0: "gatherConfigs ?w clusterPeers ! 0 = (''cfgA'', None)" by code_simp
  have u1: "jsonUnmarshal ?w ''garbage'' = Inl (jsonError ''invalid character'')"
    by (simp add: clusterEnv_def)
  have u0: "jsonUnmarshal ?w ''cfgA'' = Inr ''cfgA''"
    by (simp add: clusterEnv_def)
  have first: "\<forall>j<1. snd (gatherConfigs ?w clusterPeers ! j) = None \<longrightarrow>
                (\<exists>c. jsonUnmarshal ?w (fst (gatherConfigs ?w clusterPeers ! j)) = Inr c)"
    using g0 u0 by simp
  from getPeerConfig_decode_error_aborts[OF d l g1 u1, of "''zero''"] first
  have "getPeerConfig ''zero'' ?w clusterPeers = Return ([], Some (jsonError ''invalid character''))"
    by blast
  with d l g1 g0 u1 u0 show ?thesis by blast
qed

section \<open>Properties of listPeerLocksInfo\<close>









lemma listPeerLocksInfo_unfold:
  fixes reduceErrs :: "error option list \<Rightarrow> error option list \<Rightarrow> nat \<times> error option"
  assumes "peers \<noteq> []"
  shows "listPeerLocksInfo reduceErrs mapRange w peers bucket pfx duration =
     (case reduceErrs (map snd (gatherLocks w peers bucket pfx duration)) [] of
        (errCount, Some e) \<Rightarrow>
           if length peers div 2 + 1 \<le> errCount then Return ([], Some e)
           else Return ([], Some InsufficientReadQuorum)
      | (errCount, None) \<Rightarrow>
           Return (concat (map snd (mapRange
              (groupLocks (map fst (gatherLocks w peers bucket pfx duration))))), None))"
  using assms
  by (cases peers) (simp_all add: listPeerLocksInfo_def gatherLocks_def Let_def)














section \<open>The quorum thresholds\<close>

lemma getValidServerConfig_success_iff:
  assumes "length errs = length serverConfigs"
  shows "(\<exists>c. getValidServerConfig z serverConfigs errs = Return (c, None))
         \<longleftrightarrow> length serverConfigs div 2 + 1 \<le> maxOccurrences serverConfigs errs"
proof -
  obtain cc m c where r:
    "countConfigs serverConfigs errs = Some cc"
    "maxOccurring z serverConfigs cc = (m, c)" "m = maxOccurrences serverConfigs errs"
    by (rule counting_result[OF assms, of z])
  have "getValidServerConfig z serverConfigs errs =
      (if m < length serverConfigs div 2 + 1 then Return (z, Some errXLWriteQuorum)
       else Return (c, None))"
    using r(1,2) by (simp add: getValidServerConfig_def)
  with r(3) show ?thesis by auto
qed

lemma getPeerUptimes_success_iff:
  assumes "globalIsDistXL w"
    and "\<forall>xs. mset (sortSort xs) = mset xs"
    and "\<forall>xs. sorted (map uptime (sortSort xs))"
  shows "snd (getPeerUptimes sortSort w peers) = None
         \<longleftrightarrow> length peers div 2 \<le> length (validUptimes w peers)"
  using getPeerUptimes_dist[OF assms, of peers] by auto

lemma listPeerLocksInfo_error:
  fixes reduceErrs :: "error option list \<Rightarrow> error option list \<Rightarrow> nat \<times> error option"
  assumes "peers \<noteq> []"
    and "reduceErrs (map snd (gatherLocks w peers bucket pfx duration)) [] = (errCount, Some e)"
  shows "listPeerLocksInfo reduceErrs mapRange w peers bucket pfx duration
     = Return ([], Some (if length peers div 2 + 1 \<le> errCount then e else InsufficientReadQuorum))"
  using listPeerLocksInfo_unfold[OF assms(1), of reduceErrs mapRange w bucket pfx duration] assms(2)
  by simp

text \<open>
  Claim C3. For \<open>N \<ge> 1\<close> peers: \<^verbatim>\<open>getValidServerConfig\<close> succeeds exactly when the maximal
  occurrence count reaches \<open>N div 2 + 1\<close>; \<^verbatim>\<open>listPeerLocksInfo\<close> returns the error handed
  back by \<^verbatim>\<open>reduceErrs\<close> exactly when its count reaches \<open>N div 2 + 1\<close>, and
  \<open>InsufficientReadQuorum\<close> below; \<^verbatim>\<open>getPeerUptimes\<close> succeeds exactly when \<open>N div 2\<close> peers
  report an uptime, one less than the other two thresholds. For \<open>N = 1, 2, 3, 4, 5\<close> the
  first two thresholds are \<open>1, 2, 2, 3, 3\<close> and the third is \<open>0, 1, 1, 2, 2\<close>.
\<close>

theorem quorum_thresholds:
  fixes reduceErrs :: "error option list \<Rightarrow> error option list \<Rightarrow> nat \<times> error option"
  assumes "1 \<le> N"
  shows "(length serverConfigs = N \<and> length errs = N \<longrightarrow>
            ((\<exists>c. getValidServerConfig z serverConfigs errs = Return (c, None))
               \<longleftrightarrow> N div 2 + 1 \<le> maxOccurrences serverConfigs errs))
       \<and> (length peers = N
            \<and> reduceErrs (map snd (gatherLocks w peers bucket pfx duration)) [] = (errCount, Some e) \<longrightarrow>
            listPeerLocksInfo reduceErrs mapRange w peers bucket pfx duration
              = Return ([], Some (if N div 2 + 1 \<le> errCount then e else InsufficientReadQuorum)))
       \<and> (length peers = N \<and> globalIsDistXL w
            \<and> (\<forall>xs. mset (sortSort xs) = mset xs) \<and> (\<forall>xs. sorted (map uptime (sortSort xs))) \<longrightarrow>
            (snd (getPeerUptimes sortSort w peers) = None
               \<longleftrightarrow> N div 2 \<le> length (validUptimes w peers)))
       \<and> N div 2 + 1 = Suc (N div 2)
       \<and> (N \<le> 5 \<longrightarrow> N div 2 + 1 = [1, 2, 2, 3, 3] ! (N - 1) \<and> N div 2 = [0, 1, 1, 2, 2] ! (N - 1))"
proof -
  have a: "length serverConfigs = N \<and> length errs = N \<longrightarrow>
            ((\<exists>c. getValidServerConfig z serverConfigs errs = Return (c, None))
               \<longleftrightarrow> N div 2 + 1 \<le> maxOccurrences serverConfigs errs)"
    using getValidServerConfig_success_iff[of errs serverConfigs z] by auto
  have b: "length peers = N
            \<and> reduceErrs (map snd (gatherLocks w peers bucket pfx duration)) [] = (errCount, Some e) \<longrightarrow>
            listPeerLocksInfo reduceErrs mapRange w peers bucket pfx duration
              = Return ([], Some (if N div 2 + 1 \<le> errCount then e else InsufficientReadQuorum))"
  proof
    assume h: "length peers = N
            \<and> reduceErrs (map snd (gatherLocks w peers bucket pfx duration)) [] = (errCount, Some e)"
    with assms have "peers \<noteq> []" by auto
    from listPeerLocksInfo_error[OF this, of reduceErrs w bucket pfx duration errCount e mapRange] h
    show "listPeerLocksInfo reduceErrs mapRange w peers bucket pfx duration
              = Return ([], Some (if N div 2 + 1 \<le> errCount then e else InsufficientReadQuorum))"
      by simp
  qed
  have c: "length peers = N \<and> globalIsDistXL w
            \<and> (\<forall>xs. mset (sortSort xs) = mset xs) \<and> (\<forall>xs. sorted (map uptime (sortSort xs))) \<longrightarrow>
            (snd (getPeerUptimes sortSort w peers) = None
               \<longleftrightarrow> N div 2 \<le> length (validUptimes w peers))"
    using getPeerUptimes_success_iff[of w sortSort peers] by blast
  have d: "N \<le> 5 \<longrightarrow> N div 2 + 1 = [1, 2, 2, 3, 3] ! (N - 1) \<and> N div 2 = [0, 1, 1, 2, 2] ! (N - 1)"
  proof
    assume "N \<le> 5"
    with assms consider "N = 1" | "N = 2" | "N = 3" | "N = 4" | "N = 5" by linarith
    then show "N div 2 + 1 = [1, 2, 2, 3, 3] ! (N - 1) \<and> N div 2 = [0, 1, 1, 2, 2] ! (N - 1)"
      by cases simp_all
  qed
  have e: "N div 2 + 1 = Suc (N div 2)" by simp
  show ?thesis by (rule conjI[OF a conjI[OF b conjI[OF c conjI[OF e d]]]])
qed

theorem quorum_thresholds_witness:
  "(1::nat) \<le> 5
   \<and> length [''A'', ''B'', ''A'', ''A'', ''C''] = 5
   \<and> length [None, None, None, None, None :: error option] = 5
   \<and> ((\<exists>c. getValidServerConfig '''' [''A'', ''B'', ''A'', ''A'', ''C'']
               [None, None, None, None, None] = Return (c, None))
        \<longleftrightarrow> 3 \<le> maxOccurrences [''A'', ''B'', ''A'', ''A'', ''C''] [None, None, None, None, None])
   \<and> maxOccurrences [''A'', ''B'', ''A'', ''A'', ''C''] [None, None, None, None, None] = 3
   \<and> length clusterPeers = 5
   \<and> listPeerLocksInfo (\<lambda>errs ignored. (2, Some (rpcError ''connection refused''))) rev
        clusterEnv clusterPeers ''bucket'' ''prefix'' 0 = Return ([], Some InsufficientReadQuorum)
   \<and> globalIsDistXL clusterEnv
   \<and> (\<forall>xs. mset (sort_key uptime xs) = mset xs)
   \<and> (\<forall>xs. sorted (map uptime (sort_key uptime xs)))
   \<and> (snd (getPeerUptimes (sort_key uptime) clusterEnv clusterPeers) = None
        \<longleftrightarrow> 2 \<le> length (validUptimes clusterEnv clusterPeers))
   \<and> length (validUptimes clusterEnv clusterPeers) = 5
   \<and> (5::nat) div 2 + 1 = [1, 2, 2, 3, 3] ! (5 - 1)
   \<and> (5::nat) div 2 = [0, 1, 1, 2, 2] ! (5 - 1)"
proof -
  have n: "(1::nat) \<le> 5" by simp
  have l: "length clusterPeers = 5" by code_simp
  have m: "maxOccurrences [''A'', ''B'', ''A'', ''A'', ''C''] [None, None, None, None, None] = 3"
    by code_simp
  have v: "length (validUptimes clusterEnv clusterPeers) = 5" by code_simp
  have d: "globalIsDistXL clusterEnv" by (simp add: clusterEnv_def)
  have p: "\<forall>xs. mset (sort_key uptime xs) = mset xs" by simp
  have s: "\<forall>xs. sorted (map uptime (sort_key uptime xs))" by simp
  note t = quorum_thresholds[OF n, where serverConfigs = "[''A'', ''B'', ''A'', ''A'', ''C'']"
      and errs = "[None, None, None, None, None]" and z = "''''" and peers = clusterPeers
      and w = clusterEnv and bucket = "''bucket''" and pfx = "''prefix''" and duration = 0
      and reduceErrs = "\<lambda>errs ignored. (2, Some (rpcError ''connection refused''))"
      and errCount = 2 and e = "rpcError ''connection refused''" and mapRange = rev
      and sortSort = "sort_key uptime"]
  from t l m v d p s show ?thesis by simp
qed

end
